theory Spec2Isabelle
  imports Complex_Main "HOL-Library.Multiset"
begin

section \<open>Python values\<close>

text \<open>
  Python strings are modelled as HOL strings. \<open>str.lower\<close> is modelled on the ASCII
  letters, which is all that the recognition of the words fast, normal and slow needs: no
  character outside ASCII lower-cases to one of their letters.

  A Python \<open>set\<close> is modelled as a list without duplicates. Its iteration order, which
  Python leaves unspecified, is fixed here to the order of first insertion; the theorems
  speak of membership, distinctness and counts only.
\<close>

definition lower_char :: "char \<Rightarrow> char" where
  "lower_char c =
     (case map_of (zip ''ABCDEFGHIJKLMNOPQRSTUVWXYZ'' ''abcdefghijklmnopqrstuvwxyz'') c of
        None \<Rightarrow> c
      | Some l \<Rightarrow> l)"

definition lower :: "string \<Rightarrow> string" where
  "lower s = map lower_char s"

text \<open>\<open>set(xs)\<close> and \<open>s.add(x)\<close>.\<close>

definition py_set :: "'a list \<Rightarrow> 'a list" where
  "py_set xs = remdups xs"

definition py_add :: "'a \<Rightarrow> 'a list \<Rightarrow> 'a list" where
  "py_add x s = (if x \<in> set s then s else s @ [x])"

text \<open>\<open>d.get(key, default)\<close> on a field that a stored document may lack.\<close>

definition get_default :: "'a option \<Rightarrow> 'a \<Rightarrow> 'a" where
  "get_default field dflt = (case field of None \<Rightarrow> dflt | Some v \<Rightarrow> v)"

subsection \<open>Floats\<close>

text \<open>
  A Python float is an IEEE 754 double. Every finite double is an integer multiple of
  the least positive double, \<open>2 ^ -1074\<close>, so a finite double is modelled by the integer
  that counts these units: \<open>Fin z\<close> is the double of value \<open>z * 2 ^ -1074\<close>. The doubles
  are the \<open>Fin z\<close> where \<open>\<bar>z\<bar>\<close> has at most 53 significant bits and is below
  \<open>2 ^ 2098\<close> (the value \<open>2 ^ 1024\<close>), with \<open>Fin 0\<close> for 0.0; the negative zero, the
  two infinities (\<open>Inf True\<close> is the negative one) and NaN are values of their own.
\<close>

datatype pyfloat = Fin int | NegZero | Inf bool | NaN

text \<open>The units in 1.0, and the units at which a sum overflows to an infinity.\<close>

definition one_units :: int where
  "one_units = 2 ^ 1074"

definition overflow_units :: int where
  "overflow_units = 2 ^ 2098"

text \<open>The number of bits of a positive integer (Python's \<open>int.bit_length\<close>).\<close>

fun bit_length :: "int \<Rightarrow> nat" where
  "bit_length n = (if n \<le> 0 then 0 else Suc (bit_length (n div 2)))"

declare bit_length.simps [simp del]

text \<open>
  Rounding to the nearest double, ties to even: an exact value of \<open>z\<close> units keeps its 53
  leading bits. With \<open>k\<close> bits to drop, \<open>q\<close> is the kept part and \<open>r\<close> the dropped one;
  the kept part goes up by one when the dropped part is above half of \<open>2 ^ k\<close>, or is
  half of it and \<open>q\<close> is odd. A result of magnitude \<open>2 ^ 1024\<close> or more is an infinity.
\<close>

definition round_units :: "int \<Rightarrow> pyfloat" where
  "round_units z =
     (let n = \<bar>z\<bar>;
          k = bit_length n - 53;
          q = n div 2 ^ k;
          r = n mod 2 ^ k;
          m = (if 2 * r < 2 ^ k \<or> (2 * r = 2 ^ k \<and> even q) then q else q + 1)
      in if m * 2 ^ k < overflow_units then Fin (sgn z * (m * 2 ^ k)) else Inf (z < 0))"

text \<open>
  \<open>x + y\<close> on floats: NaN if an operand is NaN or the operands are the two infinities;
  an infinity if one operand is one; otherwise the exact sum, rounded. A sum that is
  exactly zero is 0.0, except that the negative zero plus itself is the negative zero.
\<close>

definition float_add :: "pyfloat \<Rightarrow> pyfloat \<Rightarrow> pyfloat" where
  "float_add x y =
     (case (x, y) of
        (NaN, _) \<Rightarrow> NaN
      | (_, NaN) \<Rightarrow> NaN
      | (Inf a, Inf b) \<Rightarrow> if a = b then Inf a else NaN
      | (Inf a, _) \<Rightarrow> Inf a
      | (_, Inf b) \<Rightarrow> Inf b
      | (NegZero, _) \<Rightarrow> y
      | (_, NegZero) \<Rightarrow> x
      | (Fin a, Fin b) \<Rightarrow> round_units (a + b))"

text \<open>
  \<open>float(i)\<close> for an integer \<open>i\<close>: the nearest double. (Python raises for an integer
  beyond the doubles; the handlers apply \<open>float\<close> to the integer 0 only.)
\<close>

definition float_of_int :: "int \<Rightarrow> pyfloat" where
  "float_of_int i = round_units (i * one_units)"

text \<open>\<open>x >= i\<close> for a float \<open>x\<close> and an integer \<open>i\<close>: false for NaN, exact otherwise.\<close>

definition float_ge_int :: "pyfloat \<Rightarrow> int \<Rightarrow> bool" where
  "float_ge_int x i =
     (case x of
        NaN \<Rightarrow> False
      | Inf neg \<Rightarrow> \<not> neg
      | NegZero \<Rightarrow> i \<le> 0
      | Fin z \<Rightarrow> i * one_units \<le> z)"

text \<open>The truth value of a float, as \<open>or\<close> takes it: the two zeros are false.\<close>

definition truthy :: "pyfloat \<Rightarrow> bool" where
  "truthy x = (x \<noteq> Fin 0 \<and> x \<noteq> NegZero)"

section \<open>Schemas and stored documents (schemas.py)\<close>

text \<open>
  A stored document is a pair of its \<open>_id\<close> and its fields. The handlers read the fields
  with \<open>.get\<close> and a default, so every field of a stored document is optional:
  \<open>None\<close> is a missing key.
\<close>

type_synonym oid = nat

record player_doc =
  name :: "string option"
  email :: "string option"
  av_coins :: "int option"
  revenue_usd :: "pyfloat option"
  completed_milestones :: "string list option"
  unlocked_worlds :: "string list option"

record milestone_doc =
  milestone_id :: "string option"
  title :: "string option"
  description :: "string option"
  order :: "int option"

record reward_doc =
  player_id :: oid
  reward_milestone_id :: string
  reason :: string
  coins :: int

type_synonym 'a collection = "(oid \<times> 'a) list"

text \<open>The database \<open>db\<close>, with its three collections "player", "milestone", "reward".\<close>

record database =
  coll_player :: "player_doc collection"
  coll_milestone :: "milestone_doc collection"
  coll_reward :: "reward_doc collection"

text \<open>
  \<open>Player(name=..., email=...)\<close>: the schema's defaults fill the other fields. The field
  \<open>email\<close> has the type \<open>EmailStr\<close> of the pydantic library, which validates the address
  and yields it in normalised form, or raises. The library is not part of the repository,
  so the validator is a parameter: \<open>None\<close> is the validation error.
\<close>

definition Player :: "(string \<Rightarrow> string option) \<Rightarrow> string \<Rightarrow> string \<Rightarrow> player_doc option" where
  "Player EmailStr n e =
     (case EmailStr e of
        None \<Rightarrow> None
      | Some e' \<Rightarrow>
          Some \<lparr>name = Some n, email = Some e', av_coins = Some 0,
                revenue_usd = Some (float_of_int 0),
                completed_milestones = Some [], unlocked_worlds = Some []\<rparr>)"

section \<open>Document store adapter\<close>

text \<open>
  Modelled from the spec: the module \<open>database\<close> (the handle \<open>db\<close>, \<open>create_document\<close>,
  \<open>get_documents\<close>) and the driver's \<open>find_one\<close>, \<open>find\<close> and \<open>update_one\<close> are not
  among the sources. The spec gives the adapter as insert(collection, doc) returning a
  generated id, findOne(collection, filter) returning a document or none,
  findMany(collection, filter) returning a sequence, and updateOne(collection, filter,
  mutation), over documents keyed by a unique identifier. A collection is kept in insertion
  order; findOne and updateOne take the first document that matches.
\<close>

text \<open>Modelled from the spec: a generated id is one that no stored document has.\<close>

definition new_oid :: "'a collection \<Rightarrow> oid" where
  "new_oid c = Suc (foldr max (map fst c) 0)"

text \<open>Modelled from the spec: insert(collection, doc) returns the generated id.\<close>

definition create_document :: "'a collection \<Rightarrow> 'a \<Rightarrow> oid \<times> 'a collection" where
  "create_document c d = (let i = new_oid c in (i, c @ [(i, d)]))"

text \<open>Modelled from the spec: findOne(collection, filter).\<close>

fun find_one :: "(oid \<times> 'a \<Rightarrow> bool) \<Rightarrow> 'a collection \<Rightarrow> (oid \<times> 'a) option" where
  "find_one flt [] = None"
| "find_one flt (d # ds) = (if flt d then Some d else find_one flt ds)"

text \<open>Modelled from the spec: updateOne(collection, filter, mutation).\<close>

fun update_one :: "(oid \<times> 'a \<Rightarrow> bool) \<Rightarrow> ('a \<Rightarrow> 'a) \<Rightarrow> 'a collection \<Rightarrow> 'a collection" where
  "update_one flt mut [] = []"
| "update_one flt mut (d # ds) =
     (if flt d then (fst d, mut (snd d)) # ds else d # update_one flt mut ds)"

text \<open>The filters \<open>{"email": e}\<close> and \<open>{"_id": i}\<close>.\<close>

definition by_email :: "string \<Rightarrow> oid \<times> player_doc \<Rightarrow> bool" where
  "by_email e d = (email (snd d) = Some e)"

definition by_id :: "oid \<Rightarrow> oid \<times> 'a \<Rightarrow> bool" where
  "by_id i d = (fst d = i)"

text \<open>
  The three mutations of \<open>complete_milestone\<close>:
  \<open>{"$set": {"completed_milestones": l}, "$inc": {"av_coins": n}}\<close>,
  \<open>{"$addToSet": {"unlocked_worlds": w}}\<close> and \<open>{"$set": {"revenue_usd": r}}\<close>.
  \<open>$inc\<close> creates a missing field with the increment as its value; \<open>$addToSet\<close> creates
  a missing array, and adds nothing to an array that holds the value.
\<close>

definition set_completed_inc_coins :: "string list \<Rightarrow> int \<Rightarrow> player_doc \<Rightarrow> player_doc" where
  "set_completed_inc_coins l n d =
     d\<lparr>completed_milestones := Some l, av_coins := Some (get_default (av_coins d) 0 + n)\<rparr>"

definition add_to_set_unlocked :: "string \<Rightarrow> player_doc \<Rightarrow> player_doc" where
  "add_to_set_unlocked w d =
     d\<lparr>unlocked_worlds := Some (py_add w (get_default (unlocked_worlds d) []))\<rparr>"

definition set_revenue :: "pyfloat \<Rightarrow> player_doc \<Rightarrow> player_doc" where
  "set_revenue r d = d\<lparr>revenue_usd := Some r\<rparr>"

text \<open>
  Modelled from the spec: \<open>get_documents(collection, filter, limit)\<close> is findMany; the
  handlers call it with the empty filter and no limit. Without a database it fails (the
  spec's StorageUnavailable).
\<close>

datatype error = HTTPException nat string | ValidationError | StorageUnavailable

definition get_documents :: "database option \<Rightarrow> (database \<Rightarrow> 'a collection) \<Rightarrow> error + 'a collection" where
  "get_documents db coll = (case db of None \<Rightarrow> Inl StorageUnavailable | Some s \<Rightarrow> Inr (coll s))"

section \<open>Handlers (main.py)\<close>

subsection \<open>bootstrap\<close>

text \<open>The catalog of \<open>bootstrap\<close>. The two titles with an emoji hold its UTF-8 bytes.\<close>

definition catalog_item :: "string \<Rightarrow> string \<Rightarrow> int \<Rightarrow> milestone_doc" where
  "catalog_item i t n = \<lparr>milestone_id = Some i, title = Some t, description = None, order = Some n\<rparr>"

definition catalog :: "milestone_doc list" where
  "catalog =
     [catalog_item ''m1'' ''Email y WhatsApp de Bienvenida es Enviado'' 1,
      catalog_item ''m2'' ''Formulario de Onboarding es completado'' 2,
      catalog_item ''m3'' ''Llamada de Onboarding es llamada completada'' 3,
      catalog_item ''m4'' ''Status es Producto Ganador'' 4,
      catalog_item ''m5'' ''Status es Elegido Proveedor'' 5,
      catalog_item ''m6'' ''Status es Confirmado'' 6,
      catalog_item ''m7'' ''Tienda, Status es Creada'' 7,
      catalog_item ''m8'' ''Business Manager Status es Creado'' 8,
      catalog_item ''m9'' ''Primeros ADS Subidos'' 9,
      catalog_item ''m10'' ([CHR 0xF0, CHR 0x9F, CHR 0x94, CHR 0xA5] @ '' Primera Venta'') 10,
      catalog_item ''m11'' ([CHR 0xF0, CHR 0x9F, CHR 0x98, CHR 0x8D] @ '' $1.000USD Facturaci''
         @ [CHR 0xC3, CHR 0xB3] @ ''n'') 11]"

text \<open>
  The loop \<open>for item in catalog\<close>, with the collection and the counter \<open>created\<close> as its
  state. \<open>existing\<close> is read once, before the loop.
\<close>

fun bootstrap_loop ::
  "string option list \<Rightarrow> milestone_doc list \<Rightarrow> milestone_doc collection \<times> int
     \<Rightarrow> milestone_doc collection \<times> int" where
  "bootstrap_loop existing [] (c, created) = (c, created)"
| "bootstrap_loop existing (item # items) (c, created) =
     (if milestone_id item \<notin> set existing
      then bootstrap_loop existing items (snd (create_document c item), created + 1)
      else bootstrap_loop existing items (c, created))"

definition bootstrap :: "database option \<Rightarrow> (error + int) \<times> database option" where
  "bootstrap db =
     (case db of
        None \<Rightarrow> (Inl (HTTPException 500 ''Database not configured''), db)
      | Some s \<Rightarrow>
          (let existing = py_set (map (\<lambda>m. milestone_id (snd m)) (coll_milestone s));
               (c, created) = bootstrap_loop existing catalog (coll_milestone s, 0)
           in (Inr created, Some (s\<lparr>coll_milestone := c\<rparr>))))"

subsection \<open>create_player\<close>

record CreatePlayer =
  cp_name :: string
  cp_email :: string

definition create_player ::
  "(string \<Rightarrow> string option) \<Rightarrow> database option \<Rightarrow> CreatePlayer \<Rightarrow> (error + oid) \<times> database option" where
  "create_player EmailStr db payload =
     (case db of
        None \<Rightarrow> (Inl (HTTPException 500 ''Database not configured''), db)
      | Some s \<Rightarrow>
          (case find_one (by_email (cp_email payload)) (coll_player s) of
             Some found \<Rightarrow> (Inr (fst found), db)
           | None \<Rightarrow>
               (case Player EmailStr (cp_name payload) (cp_email payload) of
                  None \<Rightarrow> (Inl ValidationError, db)
                | Some player \<Rightarrow>
                    (let (new_id, c) = create_document (coll_player s) player
                     in (Inr new_id, Some (s\<lparr>coll_player := c\<rparr>))))))"

subsection \<open>list_milestones\<close>

text \<open>
  \<open>docs.sort(key=lambda x: x.get("order", 999))\<close>: Python's sort is stable, as is
  \<open>sort_key\<close>. Dropping \<open>_id\<close> leaves the fields. The model is of the list the handler
  returns; what the web framework then does with it (the serialisation against the
  \<open>Milestone\<close> schema, which requires an order) is outside the model.
\<close>

definition order_key :: "oid \<times> milestone_doc \<Rightarrow> int" where
  "order_key x = get_default (order (snd x)) 999"

definition list_milestones :: "database option \<Rightarrow> error + milestone_doc list" where
  "list_milestones db =
     (case get_documents db coll_milestone of
        Inl e \<Rightarrow> Inl e
      | Inr docs \<Rightarrow> Inr (map snd (sort_key order_key docs)))"

subsection \<open>complete_milestone\<close>

record CompleteMilestoneRequest =
  player_email :: string
  req_milestone_id :: string
  speed :: "string option"
  revenue_increase :: "pyfloat option"

record CompleteMilestoneResponse =
  av_coins_awarded :: int
  resp_revenue_usd :: pyfloat
  unlocked_world :: "string option"
  message :: string

text \<open>\<open>(payload.speed or "normal").lower()\<close>: \<open>None\<close> and the empty string are falsy.\<close>

definition speed_of :: "string option \<Rightarrow> string" where
  "speed_of sp = lower (case sp of None \<Rightarrow> ''normal'' | Some s \<Rightarrow> if s = [] then ''normal'' else s)"

text \<open>\<open>{"fast": 50, "normal": 30, "slow": 15}.get(speed, 30)\<close>.\<close>

definition speed_reward :: "string \<Rightarrow> int" where
  "speed_reward sp =
     get_default (map_of [(''fast'', 50), (''normal'', 30), (''slow'', 15)] sp) 30"

text \<open>The reason text \<open>f"Completed {payload.milestone_id} ({speed})"\<close>.\<close>

definition reason_text :: "string \<Rightarrow> string \<Rightarrow> string" where
  "reason_text m sp = ''Completed '' @ m @ '' ('' @ sp @ '')''"

text \<open>
  The award path (the \<open>if\<close>/\<open>else\<close> on the completed set): the coins and the database
  after the branch.
\<close>

definition award_path ::
  "database \<Rightarrow> oid \<times> player_doc \<Rightarrow> CompleteMilestoneRequest \<Rightarrow> int \<times> database" where
  "award_path s player payload =
     (let completed = py_set (get_default (completed_milestones (snd player)) [])
      in if req_milestone_id payload \<in> set completed then (0, s)
         else
           (let completed' = py_add (req_milestone_id payload) completed;
                sp = speed_of (speed payload);
                coins = 100 + speed_reward sp;
                (rid, rewards) =
                   create_document (coll_reward s)
                     \<lparr>player_id = fst player, reward_milestone_id = req_milestone_id payload,
                      reason = reason_text (req_milestone_id payload) sp, coins = coins\<rparr>;
                players =
                   update_one (by_id (fst player)) (set_completed_inc_coins completed' coins)
                     (coll_player s)
            in (coins, s\<lparr>coll_player := players, coll_reward := rewards\<rparr>)))"

text \<open>
  \<open>float(payload.revenue_increase or 0)\<close>: \<open>None\<close> and the two zeros are falsy and give
  \<open>float(0)\<close>; every other float, NaN too, is taken as it is.
\<close>

definition rev_inc_of :: "pyfloat option \<Rightarrow> pyfloat" where
  "rev_inc_of r =
     (case r of
        None \<Rightarrow> float_of_int 0
      | Some x \<Rightarrow> if truthy x then x else float_of_int 0)"

text \<open>
  The revenue update and the world unlock, from the player as read at the start. The
  stored revenue is a number; \<open>float(player.get("revenue_usd", 0))\<close> is that number as a
  float, and \<open>float(0)\<close> when the field is missing. (A stored integer, such as the 0 that
  the schema's default gives a new player, is kept here as the float it is read as.)
\<close>

definition revenue_path ::
  "database \<Rightarrow> oid \<times> player_doc \<Rightarrow> CompleteMilestoneRequest
     \<Rightarrow> (pyfloat \<times> string option) \<times> database" where
  "revenue_path s player payload =
     (let rev_inc = rev_inc_of (revenue_increase payload);
          new_revenue = float_add (get_default (revenue_usd (snd player)) (float_of_int 0)) rev_inc;
          unlocks = (float_ge_int new_revenue 1000
                       \<and> ''world_1'' \<notin> set (get_default (unlocked_worlds (snd player)) []));
          unlocked = (if unlocks then Some ''world_1'' else None);
          s1 = (if unlocks
                then s\<lparr>coll_player :=
                         update_one (by_id (fst player)) (add_to_set_unlocked ''world_1'')
                           (coll_player s)\<rparr>
                else s);
          s2 = s1\<lparr>coll_player :=
                    update_one (by_id (fst player)) (set_revenue new_revenue) (coll_player s1)\<rparr>
      in ((new_revenue, unlocked), s2))"

text \<open>The message holds the UTF-8 bytes of its inverted exclamation mark.\<close>

definition progress_message :: string where
  "progress_message = [CHR 0xC2, CHR 0xA1] @ ''Progreso registrado! Sigue avanzando.''"

definition complete_milestone ::
  "database option \<Rightarrow> CompleteMilestoneRequest
     \<Rightarrow> (error + CompleteMilestoneResponse) \<times> database option" where
  "complete_milestone db payload =
     (case db of
        None \<Rightarrow> (Inl (HTTPException 500 ''Database not configured''), db)
      | Some s \<Rightarrow>
          (case find_one (by_email (player_email payload)) (coll_player s) of
             None \<Rightarrow> (Inl (HTTPException 404 ''Player not found''), db)
           | Some player \<Rightarrow>
               (let (coins, s1) = award_path s player payload;
                    ((new_revenue, unlocked), s2) = revenue_path s1 player payload
                in (Inr \<lparr>av_coins_awarded = coins, resp_revenue_usd = new_revenue,
                         unlocked_world = unlocked, message = progress_message\<rparr>,
                    Some s2))))"

subsection \<open>player_summary\<close>

record PlayerSummary =
  sum_name :: "string option"
  sum_email :: "string option"
  sum_av_coins :: int
  sum_revenue_usd :: pyfloat
  sum_completed_milestones :: "string list"
  sum_unlocked_worlds :: "string list"

definition player_summary :: "database option \<Rightarrow> string \<Rightarrow> error + PlayerSummary" where
  "player_summary db e =
     (case db of
        None \<Rightarrow> Inl (HTTPException 500 ''Database not configured'')
      | Some s \<Rightarrow>
          (case find_one (by_email e) (coll_player s) of
             None \<Rightarrow> Inl (HTTPException 404 ''Player not found'')
           | Some player \<Rightarrow>
               Inr \<lparr>sum_name = name (snd player), sum_email = email (snd player),
                    sum_av_coins = get_default (av_coins (snd player)) 0,
                    sum_revenue_usd = get_default (revenue_usd (snd player)) (Fin 0),
                    sum_completed_milestones = get_default (completed_milestones (snd player)) [],
                    sum_unlocked_worlds = get_default (unlocked_worlds (snd player)) []\<rparr>))"

section \<open>Notions for the statements and proofs\<close>

subsection \<open>One call, as a function of the player read at its start\<close>

text \<open>
  \<open>complete_milestone\<close> reads the player once and then writes to the document with the
  player's \<open>_id\<close>. The definitions below name what it computes from the player \<open>p\<close> as
  read and the request \<open>q\<close>: whether the milestone id is a duplicate, the coins, the new
  revenue, whether world_1 unlocks, the player's document and the reward collection after
  the call, and the response. The lemma \<open>complete_milestone_step\<close> proves that they are
  what the handler does.
\<close>

definition on_id :: "oid \<Rightarrow> ('a \<Rightarrow> 'a) \<Rightarrow> oid \<times> 'a \<Rightarrow> oid \<times> 'a" where
  "on_id k f d = (if fst d = k then (fst d, f (snd d)) else d)"

definition is_duplicate :: "player_doc \<Rightarrow> CompleteMilestoneRequest \<Rightarrow> bool" where
  "is_duplicate p q = (req_milestone_id q \<in> set (get_default (completed_milestones p) []))"

definition coins_for :: "player_doc \<Rightarrow> CompleteMilestoneRequest \<Rightarrow> int" where
  "coins_for p q = (if is_duplicate p q then 0 else 100 + speed_reward (speed_of (speed q)))"

definition new_revenue_for :: "player_doc \<Rightarrow> CompleteMilestoneRequest \<Rightarrow> pyfloat" where
  "new_revenue_for p q =
     float_add (get_default (revenue_usd p) (float_of_int 0)) (rev_inc_of (revenue_increase q))"

definition unlocks_for :: "player_doc \<Rightarrow> CompleteMilestoneRequest \<Rightarrow> bool" where
  "unlocks_for p q =
     (float_ge_int (new_revenue_for p q) 1000
      \<and> ''world_1'' \<notin> set (get_default (unlocked_worlds p) []))"

definition award_mut :: "player_doc \<Rightarrow> CompleteMilestoneRequest \<Rightarrow> player_doc \<Rightarrow> player_doc" where
  "award_mut p q =
     (if is_duplicate p q then (\<lambda>x. x)
      else set_completed_inc_coins
             (py_add (req_milestone_id q) (py_set (get_default (completed_milestones p) [])))
             (coins_for p q))"

definition unlock_mut :: "player_doc \<Rightarrow> CompleteMilestoneRequest \<Rightarrow> player_doc \<Rightarrow> player_doc" where
  "unlock_mut p q = (if unlocks_for p q then add_to_set_unlocked ''world_1'' else (\<lambda>x. x))"

definition player_after :: "player_doc \<Rightarrow> CompleteMilestoneRequest \<Rightarrow> player_doc" where
  "player_after p q = set_revenue (new_revenue_for p q) (unlock_mut p q (award_mut p q p))"

definition rewards_after ::
  "reward_doc collection \<Rightarrow> oid \<times> player_doc \<Rightarrow> CompleteMilestoneRequest \<Rightarrow> reward_doc collection" where
  "rewards_after c P q =
     (if is_duplicate (snd P) q then c
      else c @ [(new_oid c,
                 \<lparr>player_id = fst P, reward_milestone_id = req_milestone_id q,
                  reason = reason_text (req_milestone_id q) (speed_of (speed q)),
                  coins = coins_for (snd P) q\<rparr>)])"

definition response_for :: "player_doc \<Rightarrow> CompleteMilestoneRequest \<Rightarrow> CompleteMilestoneResponse" where
  "response_for p q =
     \<lparr>av_coins_awarded = coins_for p q, resp_revenue_usd = new_revenue_for p q,
      unlocked_world = (if unlocks_for p q then Some ''world_1'' else None),
      message = progress_message\<rparr>"

subsection \<open>The store's invariant and runs of calls\<close>

text \<open>
  The document store gives every document of a collection an \<open>_id\<close> of its own. The
  handlers rely on it: they find a player by email and update by \<open>_id\<close>. The empty
  store satisfies \<open>unique_ids\<close> and every handler preserves it (the lemmas
  \<open>unique_ids_empty\<close>, \<open>unique_ids_create_player\<close>, \<open>unique_ids_complete_milestone\<close> and
  \<open>unique_ids_bootstrap\<close>).
\<close>

definition unique_ids :: "database \<Rightarrow> bool" where
  "unique_ids s = distinct (map fst (coll_player s))"

text \<open>
  A run of \<open>complete_milestone\<close> calls, one after the other on the same database, with
  the result of each; the calls of a run that are for the player \<open>e\<close>, alone and with
  their results; and, for one player's calls, the responses and the number of awards for
  a milestone \<open>m\<close> that they give when each call starts from the document the call before
  left.
\<close>

fun complete_all ::
  "database option \<Rightarrow> CompleteMilestoneRequest list
     \<Rightarrow> (error + CompleteMilestoneResponse) list \<times> database option" where
  "complete_all db [] = ([], db)"
| "complete_all db (q # qs) =
     (let (r, db1) = complete_milestone db q;
          (rs, db2) = complete_all db1 qs
      in (r # rs, db2))"

fun player_trace :: "player_doc \<Rightarrow> CompleteMilestoneRequest list \<Rightarrow> CompleteMilestoneResponse list" where
  "player_trace p [] = []"
| "player_trace p (q # qs) = response_for p q # player_trace (player_after p q) qs"

definition reward_count :: "oid \<Rightarrow> string \<Rightarrow> reward_doc collection \<Rightarrow> nat" where
  "reward_count k m c =
     length (filter (\<lambda>d. player_id (snd d) = k \<and> reward_milestone_id (snd d) = m) c)"

fun awards :: "string \<Rightarrow> player_doc \<Rightarrow> CompleteMilestoneRequest list \<Rightarrow> nat" where
  "awards m p [] = 0"
| "awards m p (q # qs) =
     (if req_milestone_id q = m \<and> \<not> is_duplicate p q then 1 else 0) + awards m (player_after p q) qs"

definition calls_of :: "string \<Rightarrow> CompleteMilestoneRequest list \<Rightarrow> CompleteMilestoneRequest list" where
  "calls_of e qs = filter (\<lambda>q. player_email q = e) qs"

definition results_of ::
  "string \<Rightarrow> CompleteMilestoneRequest list \<Rightarrow> (error + CompleteMilestoneResponse) list
     \<Rightarrow> (CompleteMilestoneRequest \<times> (error + CompleteMilestoneResponse)) list" where
  "results_of e qs rs = filter (\<lambda>x. player_email (fst x) = e) (zip qs rs)"

subsection \<open>The speed bonus in the spec's words\<close>

text \<open>
  The spec's words for the speed bonus: the speed is compared with the three recognised
  words letter by letter, a letter matching itself and its other case; an absent or
  unrecognised speed gives 30.
\<close>

definition letter_pairs :: "(char \<times> char) list" where
  "letter_pairs = zip ''ABCDEFGHIJKLMNOPQRSTUVWXYZ'' ''abcdefghijklmnopqrstuvwxyz''"

definition same_letter :: "char \<Rightarrow> char \<Rightarrow> bool" where
  "same_letter x y = (x = y \<or> (x, y) \<in> set letter_pairs \<or> (y, x) \<in> set letter_pairs)"

definition same_ignoring_case :: "string \<Rightarrow> string \<Rightarrow> bool" where
  "same_ignoring_case a b = list_all2 same_letter a b"

definition spec_speed_bonus :: "string option \<Rightarrow> int" where
  "spec_speed_bonus sp =
     (case sp of
        None \<Rightarrow> 30
      | Some s \<Rightarrow>
          if same_ignoring_case s ''fast'' then 50
          else if same_ignoring_case s ''normal'' then 30
          else if same_ignoring_case s ''slow'' then 15
          else 30)"

subsection \<open>Example stores and requests\<close>

text \<open>
  The scenario of the spec's testable properties: the player a@x.com, registered with no
  coins and no revenue, completes m1 fast, then m1 again, slow, with a revenue increase of
  1000.
\<close>

definition demo_player :: player_doc where
  "demo_player =
     \<lparr>name = Some ''Ada'', email = Some ''a@x.com'', av_coins = Some 0,
      revenue_usd = Some (float_of_int 0),
      completed_milestones = Some [], unlocked_worlds = Some []\<rparr>"

definition demo_db :: database where
  "demo_db = \<lparr>coll_player = [(1, demo_player)], coll_milestone = [], coll_reward = []\<rparr>"

definition demo_fast :: CompleteMilestoneRequest where
  "demo_fast =
     \<lparr>player_email = ''a@x.com'', req_milestone_id = ''m1'', speed = Some ''FAST'',
      revenue_increase = None\<rparr>"

definition demo_slow :: CompleteMilestoneRequest where
  "demo_slow =
     \<lparr>player_email = ''a@x.com'', req_milestone_id = ''m1'', speed = Some ''slow'',
      revenue_increase = Some (float_of_int 1000)\<rparr>"

definition demo_refund :: CompleteMilestoneRequest where
  "demo_refund =
     \<lparr>player_email = ''a@x.com'', req_milestone_id = ''m1'', speed = None,
      revenue_increase = Some (float_of_int (- 5))\<rparr>"

definition demo_ghost :: CompleteMilestoneRequest where
  "demo_ghost =
     \<lparr>player_email = ''nobody@x.com'', req_milestone_id = ''m1'', speed = None,
      revenue_increase = None\<rparr>"

definition demo_done_player :: player_doc where
  "demo_done_player =
     \<lparr>name = Some ''Ada'', email = Some ''a@x.com'', av_coins = Some 150,
      revenue_usd = Some (float_of_int 0),
      completed_milestones = Some [''m1''], unlocked_worlds = Some []\<rparr>"

definition demo_done_db :: database where
  "demo_done_db = \<lparr>coll_player = [(1, demo_done_player)], coll_milestone = [], coll_reward = []\<rparr>"

text \<open>
  The coins a call reports (none when it fails), whether it reports the unlock of
  world_1, and the calls of a run that are for the player \<open>e\<close> and the milestone \<open>m\<close>,
  each with its result.
\<close>

definition coins_of :: "error + CompleteMilestoneResponse \<Rightarrow> int" where
  "coins_of r = (case r of Inl _ \<Rightarrow> 0 | Inr x \<Rightarrow> av_coins_awarded x)"

definition reports_unlock :: "error + CompleteMilestoneResponse \<Rightarrow> bool" where
  "reports_unlock r = (case r of Inl _ \<Rightarrow> False | Inr x \<Rightarrow> unlocked_world x = Some ''world_1'')"

definition hits_of ::
  "string \<Rightarrow> (CompleteMilestoneRequest \<times> (error + CompleteMilestoneResponse)) list
     \<Rightarrow> (CompleteMilestoneRequest \<times> (error + CompleteMilestoneResponse)) list" where
  "hits_of m xs = filter (\<lambda>x. req_milestone_id (fst x) = m) xs"

definition hits_in ::
  "database \<Rightarrow> string \<Rightarrow> string \<Rightarrow> CompleteMilestoneRequest list
     \<Rightarrow> (CompleteMilestoneRequest \<times> (error + CompleteMilestoneResponse)) list" where
  "hits_in s e m qs = hits_of m (results_of e qs (fst (complete_all (Some s) qs)))"

text \<open>The calls of a run that are for the player \<open>e\<close> and a milestone other than \<open>m\<close>.\<close>

definition others_in ::
  "database \<Rightarrow> string \<Rightarrow> string \<Rightarrow> CompleteMilestoneRequest list
     \<Rightarrow> (CompleteMilestoneRequest \<times> (error + CompleteMilestoneResponse)) list" where
  "others_in s e m qs =
     filter (\<lambda>x. req_milestone_id (fst x) \<noteq> m) (results_of e qs (fst (complete_all (Some s) qs)))"

definition traced ::
  "player_doc \<Rightarrow> CompleteMilestoneRequest list
     \<Rightarrow> (CompleteMilestoneRequest \<times> (error + CompleteMilestoneResponse)) list" where
  "traced p cs = zip cs (map Inr (player_trace p cs))"

text \<open>The milestone ids a store holds, as \<open>bootstrap\<close> reads them, and the empty store.\<close>

definition stored_ids :: "database \<Rightarrow> string option list" where
  "stored_ids s = map (\<lambda>m. milestone_id (snd m)) (coll_milestone s)"

definition empty_db :: database where
  "empty_db = \<lparr>coll_player = [], coll_milestone = [], coll_reward = []\<rparr>"

text \<open>
  A stand-in for the library's validator, for the examples. Like the library's, it
  rejects an address without an at sign and yields an accepted address with its domain
  in lower case.
\<close>

definition lower_domain_validator :: "string \<Rightarrow> string option" where
  "lower_domain_validator e =
     (if CHR ''@'' \<in> set e
      then Some (takeWhile (\<lambda>c. c \<noteq> CHR ''@'') e @ lower (dropWhile (\<lambda>c. c \<noteq> CHR ''@'') e))
      else None)"

text \<open>
  A registration whose email has its domain in upper case, and the document that is
  stored for it.
\<close>

definition demo_upper :: CreatePlayer where
  "demo_upper = \<lparr>cp_name = ''Ada'', cp_email = ''A@X.COM''\<rparr>"

definition demo_upper_doc :: player_doc where
  "demo_upper_doc =
     \<lparr>name = Some ''Ada'', email = Some ''A@x.com'', av_coins = Some 0,
      revenue_usd = Some (Fin 0), completed_milestones = Some [], unlocked_worlds = Some []\<rparr>"

text \<open>
  A store with two milestones outside the catalog: the first stored has no order, the
  second has the order 1000.
\<close>

definition demo_unordered :: milestone_doc where
  "demo_unordered = \<lparr>milestone_id = Some ''x1'', title = Some ''Extra'', description = None, order = None\<rparr>"

definition demo_late :: milestone_doc where
  "demo_late = \<lparr>milestone_id = Some ''x2'', title = Some ''Late'', description = None, order = Some 1000\<rparr>"

definition late_db :: database where
  "late_db = \<lparr>coll_player = [], coll_milestone = [(1, demo_unordered), (2, demo_late)], coll_reward = []\<rparr>"

section \<open>Floats\<close>

text \<open>
  Rounding leaves a number with at most 53 significant bits as it is, so the floats of
  the integers below \<open>2 ^ 53\<close> add like the integers. In general the rounded number
  differs from the exact one by at most the fraction \<open>2 ^ -53\<close> of it.
\<close>

lemma bit_length_le: "n < 2 ^ b \<Longrightarrow> bit_length n \<le> b"
proof (induction b arbitrary: n)
  case 0
  then show ?case by (simp add: bit_length.simps [of n])
next
  case (Suc b)
  show ?case
  proof (cases "n \<le> 0")
    case True
    then show ?thesis by (simp add: bit_length.simps [of n])
  next
    case False
    from Suc.prems have "n div 2 < 2 ^ b" by simp
    then have "bit_length (n div 2) \<le> b" by (rule Suc.IH)
    with False show ?thesis by (simp add: bit_length.simps [of n])
  qed
qed

lemma one_units_pos: "0 < one_units"
  by (simp add: one_units_def)

lemma overflow_units_eq: "overflow_units = 2 ^ 53 * (2 ^ 1024 div 2 ^ 53) * one_units"
  by (simp add: overflow_units_def one_units_def)

lemma round_units_exact_or_inf:
  assumes "\<bar>z\<bar> = m * 2 ^ j" and "m < 2 ^ 53"
  shows "round_units z = (if \<bar>z\<bar> < overflow_units then Fin z else Inf (z < 0))"
proof -
  let ?n = "\<bar>z\<bar>"
  let ?k = "bit_length ?n - 53"
  have "?n < 2 ^ 53 * 2 ^ j"
    using assms(1,2) by simp
  then have "?n < 2 ^ (53 + j)"
    by (simp add: power_add)
  then have "bit_length ?n \<le> 53 + j"
    by (rule bit_length_le)
  then have kj: "?k \<le> j" by simp
  then have "(2 :: int) ^ ?k dvd 2 ^ j"
    by (rule le_imp_power_dvd)
  then have dvd: "2 ^ ?k dvd ?n"
    unfolding assms(1) by (rule dvd_mult)
  then have r: "?n mod 2 ^ ?k = 0" and q: "?n div 2 ^ ?k * 2 ^ ?k = ?n"
    by simp_all
  have "sgn z * ?n = z"
    by (simp add: mult_sgn_abs)
  then show ?thesis
    by (simp add: round_units_def Let_def r q)
qed

lemma round_units_exact:
  assumes "\<bar>z\<bar> = m * 2 ^ j" and "m < 2 ^ 53" and "\<bar>z\<bar> < overflow_units"
  shows "round_units z = Fin z"
  using round_units_exact_or_inf [OF assms(1,2)] assms(3) by simp

lemma float_of_int_exact:
  assumes "\<bar>i\<bar> < 2 ^ 53"
  shows "float_of_int i = Fin (i * one_units)"
  unfolding float_of_int_def
proof (rule round_units_exact [where m = "\<bar>i\<bar>" and j = 1074])
  show "\<bar>i * one_units\<bar> = \<bar>i\<bar> * 2 ^ 1074"
    by (simp add: abs_mult one_units_def)
  show "\<bar>i\<bar> < 2 ^ 53" by (rule assms)
  have "\<bar>i\<bar> * one_units < 2 ^ 53 * one_units"
    using assms one_units_pos by (simp only: mult_strict_right_mono)
  also have "\<dots> \<le> overflow_units"
    unfolding overflow_units_eq using one_units_pos by simp
  finally show "\<bar>i * one_units\<bar> < overflow_units"
    using one_units_pos by (simp add: abs_mult)
qed

lemma float_add_ints:
  assumes "\<bar>a\<bar> < 2 ^ 53" and "\<bar>b\<bar> < 2 ^ 53" and "\<bar>a + b\<bar> < 2 ^ 53"
  shows "float_add (float_of_int a) (float_of_int b) = float_of_int (a + b)"
proof -
  have "float_add (Fin (a * one_units)) (Fin (b * one_units)) = round_units ((a + b) * one_units)"
    by (simp add: float_add_def distrib_right)
  then show ?thesis
    by (simp only: float_of_int_exact [OF assms(1)] float_of_int_exact [OF assms(2)]
        float_of_int_def [of "a + b"])
qed

lemma float_ge_int_exact:
  assumes "\<bar>a\<bar> < 2 ^ 53"
  shows "float_ge_int (float_of_int a) i \<longleftrightarrow> i \<le> a"
  using one_units_pos by (simp add: float_of_int_exact [OF assms] float_ge_int_def)

lemma truthy_int:
  assumes "\<bar>a\<bar> < 2 ^ 53"
  shows "truthy (float_of_int a) \<longleftrightarrow> a \<noteq> 0"
  using one_units_pos by (simp add: float_of_int_exact [OF assms] truthy_def)

lemma float_of_int_inject:
  assumes "\<bar>a\<bar> < 2 ^ 53" and "\<bar>b\<bar> < 2 ^ 53"
  shows "float_of_int a = float_of_int b \<longleftrightarrow> a = b"
  using one_units_pos by (simp add: float_of_int_exact [OF assms(1)] float_of_int_exact [OF assms(2)])

lemma bit_length_gt: "2 ^ b \<le> n \<Longrightarrow> b < bit_length n"
proof (induction b arbitrary: n)
  case 0
  then show ?case by (simp add: bit_length.simps [of n])
next
  case (Suc b)
  then have "2 ^ b \<le> n div 2" by simp
  then have "b < bit_length (n div 2)" by (rule Suc.IH)
  moreover have "0 < n" using Suc.prems by (smt (verit) zero_less_power)
  ultimately show ?case by (simp add: bit_length.simps [of n])
qed

lemma round_units_at:
  assumes "2 ^ (52 + k) \<le> \<bar>z\<bar>" and "\<bar>z\<bar> < 2 ^ (53 + k)"
  shows "round_units z =
           (let q = \<bar>z\<bar> div 2 ^ k;
                r = \<bar>z\<bar> mod 2 ^ k;
                m = (if 2 * r < 2 ^ k \<or> (2 * r = 2 ^ k \<and> even q) then q else q + 1)
            in if m * 2 ^ k < overflow_units then Fin (sgn z * (m * 2 ^ k)) else Inf (z < 0))"
proof -
  have "bit_length \<bar>z\<bar> \<le> 53 + k"
    using assms(2) by (rule bit_length_le)
  moreover have "52 + k < bit_length \<bar>z\<bar>"
    using assms(1) by (rule bit_length_gt)
  ultimately have "bit_length \<bar>z\<bar> - 53 = k" by simp
  then show ?thesis by (simp add: round_units_def Let_def)
qed

lemma round_core:
  fixes n :: int
  assumes "n = q * p + r" and "0 \<le> r" and "r < p"
    and "m = (if 2 * r < p \<or> (2 * r = p \<and> even q) then q else q + 1)"
  shows "2 * \<bar>m * p - n\<bar> \<le> p"
proof (cases "2 * r < p \<or> (2 * r = p \<and> even q)")
  case True
  with assms(4) have "m = q" by simp
  with assms(1) have "m * p - n = - r" by simp
  with True assms(2) show ?thesis by auto
next
  case False
  with assms(4) have "m = q + 1" by simp
  with assms(1) have "m * p - n = p - r" by (simp add: algebra_simps)
  with False assms(2,3) show ?thesis by auto
qed

lemma round_units_error:
  assumes "round_units z = Fin w"
  shows "2 ^ 53 * \<bar>w - z\<bar> \<le> \<bar>z\<bar>"
proof -
  define n where "n = \<bar>z\<bar>"
  define k where "k = bit_length n - 53"
  define p :: int where "p = 2 ^ k"
  define q where "q = n div p"
  define r where "r = n mod p"
  define m where "m = (if 2 * r < p \<or> (2 * r = p \<and> even q) then q else q + 1)"
  have ru: "round_units z = (if m * p < overflow_units then Fin (sgn z * (m * p)) else Inf (z < 0))"
    unfolding round_units_def Let_def m_def r_def q_def p_def k_def n_def by (rule refl)
  have w: "w = sgn z * (m * p)"
    using assms unfolding ru by (simp split: if_splits)
  have ppos: "0 < p" by (simp add: p_def)
  have n: "n = q * p + r" by (simp add: q_def r_def)
  have r0: "0 \<le> r" and r1: "r < p"
    using ppos by (simp_all add: r_def)
  have half: "2 * \<bar>m * p - n\<bar> \<le> p"
    using n r0 r1 m_def by (rule round_core)
  have "w - z = sgn z * (m * p) - sgn z * n"
    by (simp add: w n_def mult_sgn_abs)
  also have "\<dots> = sgn z * (m * p - n)"
    by (simp only: right_diff_distrib)
  finally have "\<bar>w - z\<bar> = \<bar>sgn z\<bar> * \<bar>m * p - n\<bar>"
    by (simp only: abs_mult)
  also have "\<dots> \<le> \<bar>m * p - n\<bar>"
    by (cases "z = 0") (simp_all add: abs_sgn_eq)
  finally have err: "\<bar>w - z\<bar> \<le> \<bar>m * p - n\<bar>" .
  show ?thesis
  proof (cases "k = 0")
    case True
    then have "p = 1" by (simp add: p_def)
    with half have "2 * \<bar>m * p - n\<bar> \<le> 1" by simp
    moreover define d where "d = \<bar>m * p - n\<bar>"
    ultimately have "2 * d \<le> 1" and "0 \<le> d" by simp_all
    then have "d = 0" by simp
    then have "\<bar>m * p - n\<bar> = 0" by (simp only: d_def)
    with err show ?thesis by simp
  next
    case False
    then have "52 + k < bit_length n" by (simp add: k_def)
    then have "\<not> n < 2 ^ (52 + k)"
      using bit_length_le [of n "52 + k"] by linarith
    then have big: "2 ^ 52 * p \<le> n"
      by (simp add: power_add p_def)
    have "2 ^ 53 * \<bar>w - z\<bar> \<le> 2 ^ 53 * \<bar>m * p - n\<bar>"
      using err by simp
    also have "\<dots> = 2 ^ 52 * (2 * \<bar>m * p - n\<bar>)"
      by simp
    also have "\<dots> \<le> 2 ^ 52 * p"
      using half by simp
    also have "\<dots> \<le> n" by (rule big)
    finally show ?thesis by (simp add: n_def)
  qed
qed

lemma float_of_int_0: "float_of_int 0 = Fin 0"
  using float_of_int_exact [of 0] by simp

lemma float_add_error:
  assumes "float_add (Fin a) (Fin b) = Fin w"
  shows "2 ^ 53 * \<bar>w - (a + b)\<bar> \<le> \<bar>a + b\<bar>"
proof -
  from assms have "round_units (a + b) = Fin w"
    by (simp add: float_add_def)
  then show ?thesis by (rule round_units_error)
qed

lemma float_add_exact:
  assumes "float_add (Fin a) (Fin b) = Fin w" and "\<bar>a + b\<bar> = m * 2 ^ j" and "m < 2 ^ 53"
  shows "w = a + b"
  using assms(1) round_units_exact_or_inf [OF assms(2,3)]
  by (simp add: float_add_def split: if_splits)

text \<open>
  Two sums that round. \<open>1e16 + 1.0\<close> is \<open>1e16\<close>: the exact sum lies halfway between two
  doubles and goes to the even one. \<open>999.9999999999999 + 6e-14\<close> is \<open>1000.0\<close>, although
  the exact sum is below 1000.
\<close>

lemma float_add_1e16_1:
  "float_add (Fin (10 ^ 16 * one_units)) (Fin (1 * one_units)) = Fin (10 ^ 16 * one_units)"
proof -
  have "round_units ((10 ^ 16 + 1) * one_units) = Fin (10 ^ 16 * one_units)"
    by (subst round_units_at [where k = 1075])
       (simp_all add: one_units_def overflow_units_def)
  then show ?thesis
    by (simp add: float_add_def distrib_right)
qed

lemma float_add_rounds_to_1000:
  "float_add (Fin (8796093022207999 * 2 ^ 1031)) (Fin (1188422437713965 * 2 ^ 980))
     = float_of_int 1000"
  "8796093022207999 * 2 ^ 1031 + 1188422437713965 * 2 ^ 980 < 1000 * one_units"
proof -
  have "round_units (8796093022207999 * 2 ^ 1031 + 1188422437713965 * 2 ^ 980)
          = Fin (1000 * one_units)"
    by (subst round_units_at [where k = 1031])
       (simp_all add: one_units_def overflow_units_def)
  then show "float_add (Fin (8796093022207999 * 2 ^ 1031)) (Fin (1188422437713965 * 2 ^ 980))
               = float_of_int 1000"
    by (simp add: float_add_def float_of_int_exact)
  show "8796093022207999 * 2 ^ 1031 + 1188422437713965 * 2 ^ 980 < 1000 * one_units"
    by (simp add: one_units_def)
qed

section \<open>The store and one call\<close>

lemma fst_on_id: "fst (on_id k f d) = fst d"
  by (simp add: on_id_def)

lemma map_fst_on_id: "map fst (map (on_id k f) c) = map fst c"
  by (induction c) (simp_all add: fst_on_id)

lemma on_id_other: "\<forall>d \<in> set c. fst d \<noteq> k \<Longrightarrow> map (on_id k f) c = c"
  by (induction c) (simp_all add: on_id_def)

lemma update_one_by_id:
  "distinct (map fst c) \<Longrightarrow> update_one (by_id k) f c = map (on_id k f) c"
proof (induction c)
  case Nil
  show ?case by simp
next
  case (Cons d ds)
  show ?case
  proof (cases "fst d = k")
    case True
    with Cons.prems have "k \<notin> fst ` set ds" by simp
    then have "\<forall>x \<in> set ds. fst x \<noteq> k" by (blast intro: rev_image_eqI)
    then have tl: "map (on_id k f) ds = ds" by (rule on_id_other)
    have upd: "update_one (by_id k) f (d # ds) = (fst d, f (snd d)) # ds"
      using True by (simp add: by_id_def)
    have hd: "on_id k f d = (fst d, f (snd d))"
      using True by (simp add: on_id_def)
    show ?thesis unfolding upd by (simp add: hd tl)
  next
    case False
    with Cons show ?thesis by (simp add: by_id_def on_id_def)
  qed
qed

lemma on_id_comp: "on_id k f (on_id k g d) = on_id k (f \<circ> g) d"
  by (simp add: on_id_def)

lemma map_on_id_comp: "map (on_id k f) (map (on_id k g) c) = map (on_id k (f \<circ> g)) c"
  by (simp add: on_id_comp)

lemma find_one_mem: "find_one flt c = Some p \<Longrightarrow> p \<in> set c \<and> flt p"
  by (induction c) (auto split: if_splits)

lemma find_one_None: "find_one flt c = None \<longleftrightarrow> (\<forall>d \<in> set c. \<not> flt d)"
  by (induction c) auto

lemma find_one_map:
  "(\<And>d. flt (g d) = flt d) \<Longrightarrow> find_one flt (map g c) = map_option g (find_one flt c)"
  by (induction c) simp_all

lemma new_oid_fresh: "new_oid c \<notin> fst ` set c"
proof -
  have "\<forall>d \<in> set c. fst d \<le> foldr max (map fst c) 0"
    by (induction c) auto
  then show ?thesis by (auto simp: new_oid_def)
qed

lemma find_one_append:
  "find_one flt (c @ c') = (case find_one flt c of None \<Rightarrow> find_one flt c' | Some d \<Rightarrow> Some d)"
  by (induction c) simp_all

lemma on_id_id: "on_id k (\<lambda>x. x) d = d"
  by (cases d) (simp add: on_id_def)

lemma map_on_id_id: "map (on_id k (\<lambda>x. x)) c = c"
  by (induction c) (simp_all add: on_id_id)

lemma in_py_set: "x \<in> set (py_set xs) \<longleftrightarrow> x \<in> set xs"
  by (simp add: py_set_def)

lemma award_path_eq:
  assumes "distinct (map fst (coll_player s))"
  shows "award_path s P q =
           (coins_for (snd P) q,
            s\<lparr>coll_player := map (on_id (fst P) (award_mut (snd P) q)) (coll_player s),
              coll_reward := rewards_after (coll_reward s) P q\<rparr>)"
proof (cases "is_duplicate (snd P) q")
  case True
  then show ?thesis
    by (simp add: award_path_def is_duplicate_def in_py_set coins_for_def award_mut_def
        rewards_after_def map_on_id_id)
next
  case False
  then show ?thesis
    by (simp add: award_path_def is_duplicate_def in_py_set coins_for_def award_mut_def
        rewards_after_def create_document_def Let_def update_one_by_id [OF assms])
qed

lemma revenue_path_eq:
  assumes "distinct (map fst (coll_player s))"
  shows "revenue_path s P q =
           ((new_revenue_for (snd P) q, if unlocks_for (snd P) q then Some ''world_1'' else None),
            s\<lparr>coll_player :=
                 map (on_id (fst P) (set_revenue (new_revenue_for (snd P) q) \<circ> unlock_mut (snd P) q))
                   (coll_player s)\<rparr>)"
proof -
  have nr: "float_add (get_default (revenue_usd (snd P)) (float_of_int 0))
                (rev_inc_of (revenue_increase q))
              = new_revenue_for (snd P) q"
    by (simp add: new_revenue_for_def)
  have d2: "distinct (map fst (map (on_id (fst P) (add_to_set_unlocked ''world_1'')) (coll_player s)))"
    using assms by (simp only: map_fst_on_id)
  show ?thesis
  proof (cases "unlocks_for (snd P) q")
    case True
    then show ?thesis
      unfolding revenue_path_def Let_def nr unlocks_for_def [symmetric]
      by (simp add: unlock_mut_def update_one_by_id [OF assms] update_one_by_id [OF d2]
          map_on_id_comp del: map_map)
  next
    case False
    then show ?thesis
      unfolding revenue_path_def Let_def nr unlocks_for_def [symmetric]
      by (simp add: unlock_mut_def update_one_by_id [OF assms] comp_def)
  qed
qed

lemma on_id_const:
  assumes "distinct (map fst c)" and "P \<in> set c"
  shows "map (on_id (fst P) f) c = map (on_id (fst P) (\<lambda>_. f (snd P))) c"
proof (rule map_cong [OF refl])
  fix d assume "d \<in> set c"
  show "on_id (fst P) f d = on_id (fst P) (\<lambda>_. f (snd P)) d"
  proof (cases "fst d = fst P")
    case True
    with assms \<open>d \<in> set c\<close> have "d = P"
      by (metis eq_key_imp_eq_value prod.collapse)
    then show ?thesis by (simp add: on_id_def)
  next
    case False
    then show ?thesis by (simp add: on_id_def)
  qed
qed

lemma complete_milestone_step:
  assumes ids: "distinct (map fst (coll_player s))"
    and found: "find_one (by_email (player_email q)) (coll_player s) = Some P"
  shows "complete_milestone (Some s) q =
           (Inr (response_for (snd P) q),
            Some (s\<lparr>coll_player := map (on_id (fst P) (\<lambda>_. player_after (snd P) q)) (coll_player s),
                    coll_reward := rewards_after (coll_reward s) P q\<rparr>))"
proof -
  let ?s1 = "s\<lparr>coll_player := map (on_id (fst P) (award_mut (snd P) q)) (coll_player s),
              coll_reward := rewards_after (coll_reward s) P q\<rparr>"
  have ids1: "distinct (map fst (coll_player ?s1))"
    using ids by (simp add: map_fst_on_id del: map_map)
  have mem: "P \<in> set (coll_player s)"
    using found by (simp add: find_one_mem)
  have "map (on_id (fst P) (set_revenue (new_revenue_for (snd P) q) \<circ> unlock_mut (snd P) q))
          (map (on_id (fst P) (award_mut (snd P) q)) (coll_player s))
        = map (on_id (fst P)
               (set_revenue (new_revenue_for (snd P) q) \<circ> unlock_mut (snd P) q \<circ> award_mut (snd P) q))
            (coll_player s)"
    by (simp only: map_on_id_comp)
  also have "\<dots> = map (on_id (fst P) (\<lambda>_. player_after (snd P) q)) (coll_player s)"
    unfolding on_id_const [OF ids mem,
        of "set_revenue (new_revenue_for (snd P) q) \<circ> unlock_mut (snd P) q \<circ> award_mut (snd P) q"]
    by (simp only: player_after_def comp_apply)
  finally have players: "map (on_id (fst P) (set_revenue (new_revenue_for (snd P) q) \<circ> unlock_mut (snd P) q))
          (map (on_id (fst P) (award_mut (snd P) q)) (coll_player s))
        = map (on_id (fst P) (\<lambda>_. player_after (snd P) q)) (coll_player s)" .
  show ?thesis
    using players
    by (simp add: complete_milestone_def found award_path_eq [OF ids] revenue_path_eq [OF ids1]
        response_for_def del: map_map)
qed

lemma email_player_after: "email (player_after p q) = email p"
  by (simp add: player_after_def set_revenue_def unlock_mut_def award_mut_def
      add_to_set_unlocked_def set_completed_inc_coins_def)

lemma find_one_map_on:
  "(\<And>d. d \<in> set c \<Longrightarrow> flt (g d) = flt d) \<Longrightarrow> find_one flt (map g c) = map_option g (find_one flt c)"
  by (induction c) simp_all

lemma unique_ids_eq:
  assumes "distinct (map fst c)" "P \<in> set c" "d \<in> set c" "fst d = fst P"
  shows "d = P"
  using assms by (metis eq_key_imp_eq_value prod.collapse)

lemma find_after_own:
  assumes ids: "distinct (map fst c)" and found: "find_one (by_email e) c = Some P"
  shows "find_one (by_email e) (map (on_id (fst P) (\<lambda>_. player_after (snd P) q)) c)
           = Some (fst P, player_after (snd P) q)"
proof -
  have mem: "P \<in> set c" and em: "by_email e P"
    using found by (simp_all add: find_one_mem)
  have "find_one (by_email e) (map (on_id (fst P) (\<lambda>_. player_after (snd P) q)) c)
          = map_option (on_id (fst P) (\<lambda>_. player_after (snd P) q)) (find_one (by_email e) c)"
  proof (rule find_one_map_on)
    fix d assume d: "d \<in> set c"
    show "by_email e (on_id (fst P) (\<lambda>_. player_after (snd P) q) d) = by_email e d"
    proof (cases "fst d = fst P")
      case True
      then have "d = P" using ids mem d by (simp add: unique_ids_eq)
      then show ?thesis using em by (simp add: on_id_def by_email_def email_player_after)
    next
      case False
      then show ?thesis by (simp add: on_id_def)
    qed
  qed
  then show ?thesis by (simp add: found on_id_def)
qed

lemma find_after_other:
  assumes ids: "distinct (map fst c)" and found: "find_one (by_email e) c = Some P"
    and found': "find_one (by_email e') c = Some P'" and ne: "e' \<noteq> e"
  shows "find_one (by_email e) (map (on_id (fst P') (\<lambda>_. player_after (snd P') q)) c) = Some P"
    and "fst P' \<noteq> fst P"
proof -
  have mem: "P \<in> set c" and em: "by_email e P"
    using found by (simp_all add: find_one_mem)
  have mem': "P' \<in> set c" and em': "by_email e' P'"
    using found' by (simp_all add: find_one_mem)
  have "P' \<noteq> P" using em em' ne by (auto simp: by_email_def)
  then show neq: "fst P' \<noteq> fst P" using unique_ids_eq [OF ids mem mem'] by blast
  have "find_one (by_email e) (map (on_id (fst P') (\<lambda>_. player_after (snd P') q)) c)
          = map_option (on_id (fst P') (\<lambda>_. player_after (snd P') q)) (find_one (by_email e) c)"
  proof (rule find_one_map_on)
    fix d assume d: "d \<in> set c"
    show "by_email e (on_id (fst P') (\<lambda>_. player_after (snd P') q) d) = by_email e d"
    proof (cases "fst d = fst P'")
      case True
      then have "d = P'" using ids mem' d by (simp add: unique_ids_eq)
      then show ?thesis using em' ne by (simp add: on_id_def by_email_def email_player_after)
    next
      case False
      then show ?thesis by (simp add: on_id_def)
    qed
  qed
  then show "find_one (by_email e) (map (on_id (fst P') (\<lambda>_. player_after (snd P') q)) c) = Some P"
    using neq by (simp add: found on_id_def)
qed

lemma reward_count_after:
  "reward_count k m (rewards_after c P q)
     = reward_count k m c + (if fst P = k \<and> req_milestone_id q = m \<and> \<not> is_duplicate (snd P) q then 1 else 0)"
  by (simp add: reward_count_def rewards_after_def)

lemma complete_milestone_own:
  assumes ids: "unique_ids s" and found: "find_one (by_email e) (coll_player s) = Some P"
    and q: "player_email q = e"
  obtains s' where "complete_milestone (Some s) q = (Inr (response_for (snd P) q), Some s')"
    and "unique_ids s'"
    and "find_one (by_email e) (coll_player s') = Some (fst P, player_after (snd P) q)"
    and "coll_reward s' = rewards_after (coll_reward s) P q"
    and "coll_milestone s' = coll_milestone s"
proof -
  let ?s' = "s\<lparr>coll_player := map (on_id (fst P) (\<lambda>_. player_after (snd P) q)) (coll_player s),
              coll_reward := rewards_after (coll_reward s) P q\<rparr>"
  have d: "distinct (map fst (coll_player s))" using ids by (simp add: unique_ids_def)
  have "complete_milestone (Some s) q = (Inr (response_for (snd P) q), Some ?s')"
    using complete_milestone_step [OF d] found q by simp
  moreover have "unique_ids ?s'"
    using d by (simp add: unique_ids_def map_fst_on_id del: map_map)
  moreover have "find_one (by_email e) (coll_player ?s') = Some (fst P, player_after (snd P) q)"
    using find_after_own [OF d found] by simp
  ultimately show thesis using that [of ?s'] by simp
qed

lemma complete_milestone_foreign:
  assumes ids: "unique_ids s" and found: "find_one (by_email e) (coll_player s) = Some P"
    and q: "player_email q \<noteq> e"
  obtains r s' where "complete_milestone (Some s) q = (r, Some s')"
    and "unique_ids s'"
    and "find_one (by_email e) (coll_player s') = Some P"
    and "reward_count (fst P) m (coll_reward s') = reward_count (fst P) m (coll_reward s)"
proof (cases "find_one (by_email (player_email q)) (coll_player s)")
  case None
  then have "complete_milestone (Some s) q = (Inl (HTTPException 404 ''Player not found''), Some s)"
    by (simp add: complete_milestone_def)
  then show thesis using that [of _ s] ids found by simp
next
  case (Some P')
  let ?s' = "s\<lparr>coll_player := map (on_id (fst P') (\<lambda>_. player_after (snd P') q)) (coll_player s),
              coll_reward := rewards_after (coll_reward s) P' q\<rparr>"
  have d: "distinct (map fst (coll_player s))" using ids by (simp add: unique_ids_def)
  have "complete_milestone (Some s) q = (Inr (response_for (snd P') q), Some ?s')"
    using complete_milestone_step [OF d Some] by simp
  moreover have "unique_ids ?s'"
    using d by (simp add: unique_ids_def map_fst_on_id del: map_map)
  moreover have "find_one (by_email e) (coll_player ?s') = Some P"
    using find_after_other(1) [OF d found Some q] by simp
  moreover have "reward_count (fst P) m (coll_reward ?s') = reward_count (fst P) m (coll_reward s)"
    using find_after_other(2) [OF d found Some q] by (simp add: reward_count_after)
  ultimately show thesis using that [of _ ?s'] by simp
qed

lemma complete_all_player:
  assumes "unique_ids s" and "find_one (by_email e) (coll_player s) = Some P"
  shows "\<exists>s'. snd (complete_all (Some s) qs) = Some s'
           \<and> unique_ids s'
           \<and> find_one (by_email e) (coll_player s')
                = Some (fst P, foldl player_after (snd P) (calls_of e qs))
           \<and> results_of e qs (fst (complete_all (Some s) qs))
                = zip (calls_of e qs) (map Inr (player_trace (snd P) (calls_of e qs)))
           \<and> reward_count (fst P) m (coll_reward s')
                = reward_count (fst P) m (coll_reward s) + awards m (snd P) (calls_of e qs)"
  using assms
proof (induction qs arbitrary: s P)
  case Nil
  then show ?case by (simp add: calls_of_def results_of_def)
next
  case (Cons q qs)
  show ?case
  proof (cases "player_email q = e")
    case True
    from complete_milestone_own [OF Cons.prems True]
    obtain s1 where step: "complete_milestone (Some s) q = (Inr (response_for (snd P) q), Some s1)"
      and ids1: "unique_ids s1"
      and found1: "find_one (by_email e) (coll_player s1) = Some (fst P, player_after (snd P) q)"
      and rew1: "coll_reward s1 = rewards_after (coll_reward s) P q"
      by blast
    from Cons.IH [OF ids1 found1]
    obtain s' where rest: "snd (complete_all (Some s1) qs) = Some s'" "unique_ids s'"
      "find_one (by_email e) (coll_player s')
         = Some (fst P, foldl player_after (player_after (snd P) q) (calls_of e qs))"
      "results_of e qs (fst (complete_all (Some s1) qs))
         = zip (calls_of e qs) (map Inr (player_trace (player_after (snd P) q) (calls_of e qs)))"
      "reward_count (fst P) m (coll_reward s')
         = reward_count (fst P) m (coll_reward s1) + awards m (player_after (snd P) q) (calls_of e qs)"
      by auto
    have calls: "calls_of e (q # qs) = q # calls_of e qs"
      using True by (simp add: calls_of_def)
    have res: "results_of e (q # qs) (r # rs) = (q, r) # results_of e qs rs" for r rs
      using True by (simp add: results_of_def)
    obtain rs where ca: "complete_all (Some s1) qs = (rs, Some s')"
      using rest(1) by (cases "complete_all (Some s1) qs") auto
    have all: "complete_all (Some s) (q # qs) = (Inr (response_for (snd P) q) # rs, Some s')"
      by (simp add: step ca)
    show ?thesis
      unfolding all using rest(2-5) by (simp add: ca calls res rew1 reward_count_after)
  next
    case False
    from complete_milestone_foreign [OF Cons.prems False, of m]
    obtain r s1 where step: "complete_milestone (Some s) q = (r, Some s1)"
      and ids1: "unique_ids s1"
      and found1: "find_one (by_email e) (coll_player s1) = Some P"
      and rew1: "reward_count (fst P) m (coll_reward s1) = reward_count (fst P) m (coll_reward s)"
      by blast
    from Cons.IH [OF ids1 found1]
    obtain s' where rest: "snd (complete_all (Some s1) qs) = Some s'" "unique_ids s'"
      "find_one (by_email e) (coll_player s')
         = Some (fst P, foldl player_after (snd P) (calls_of e qs))"
      "results_of e qs (fst (complete_all (Some s1) qs))
         = zip (calls_of e qs) (map Inr (player_trace (snd P) (calls_of e qs)))"
      "reward_count (fst P) m (coll_reward s')
         = reward_count (fst P) m (coll_reward s1) + awards m (snd P) (calls_of e qs)"
      by auto
    have calls: "calls_of e (q # qs) = calls_of e qs"
      using False by (simp add: calls_of_def)
    have res: "results_of e (q # qs) (r # rs) = results_of e qs rs" for r rs
      using False by (simp add: results_of_def)
    obtain rs where ca: "complete_all (Some s1) qs = (rs, Some s')"
      using rest(1) by (cases "complete_all (Some s1) qs") auto
    have all: "complete_all (Some s) (q # qs) = (r # rs, Some s')"
      by (simp add: step ca)
    show ?thesis
      unfolding all using rest(2-5) by (simp add: ca calls res rew1)
  qed
qed

section \<open>The response of one call\<close>

lemma complete_milestone_response:
  assumes "find_one (by_email (player_email q)) (coll_player s) = Some P"
  shows "fst (complete_milestone (Some s) q) = Inr (response_for (snd P) q)"
proof -
  have a: "fst (award_path s P q) = coins_for (snd P) q"
    by (simp add: award_path_def coins_for_def is_duplicate_def in_py_set Let_def split_beta)
  have r: "fst (revenue_path s' P q)
             = (new_revenue_for (snd P) q, if unlocks_for (snd P) q then Some ''world_1'' else None)" for s'
    by (simp add: revenue_path_def new_revenue_for_def unlocks_for_def Let_def)
  show ?thesis
    by (simp add: complete_milestone_def assms split_beta a r response_for_def)
qed

lemma distinct_letters: "distinct (map fst letter_pairs)"
  by (simp add: letter_pairs_def)

lemma lower_char_iff:
  assumes "y \<notin> fst ` set letter_pairs"
  shows "lower_char x = y \<longleftrightarrow> same_letter x y"
proof -
  have lc: "lower_char x = (case map_of letter_pairs x of None \<Rightarrow> x | Some l \<Rightarrow> l)"
    by (simp only: lower_char_def letter_pairs_def)
  have no: "(y, x) \<notin> set letter_pairs"
    using assms by (metis fst_conv image_eqI)
  have y: "map_of letter_pairs y = None"
    using assms by (simp add: map_of_eq_None_iff)
  show ?thesis
  proof (cases "map_of letter_pairs x")
    case None
    then have "(x, y) \<notin> set letter_pairs"
      by (metis map_of_eq_None_iff fst_conv image_eqI)
    with None no show ?thesis by (simp add: lc same_letter_def)
  next
    case (Some l)
    then have "(x, y) \<in> set letter_pairs \<longleftrightarrow> l = y"
      using distinct_letters by (metis map_of_eq_Some_iff option.inject)
    moreover have "x \<noteq> y" using Some y by auto
    ultimately show ?thesis using Some no by (auto simp: lc same_letter_def)
  qed
qed

lemma lower_eq_iff:
  assumes "set w \<inter> fst ` set letter_pairs = {}"
  shows "lower s = w \<longleftrightarrow> same_ignoring_case s w"
proof -
  have "lower s = w \<longleftrightarrow> list_all2 (\<lambda>x y. lower_char x = y) s w"
    by (simp add: lower_def list_all2_conv_all_nth list_eq_iff_nth_eq)
  also have "\<dots> \<longleftrightarrow> list_all2 same_letter s w"
  proof
    assume "list_all2 (\<lambda>x y. lower_char x = y) s w"
    then show "list_all2 same_letter s w"
      by (rule list.rel_mono_strong) (use assms lower_char_iff in blast)
  next
    assume "list_all2 same_letter s w"
    then show "list_all2 (\<lambda>x y. lower_char x = y) s w"
      by (rule list.rel_mono_strong) (use assms lower_char_iff in blast)
  qed
  finally show ?thesis by (simp add: same_ignoring_case_def)
qed

lemma lower_words:
  "lower s = ''fast'' \<longleftrightarrow> same_ignoring_case s ''fast''"
  "lower s = ''normal'' \<longleftrightarrow> same_ignoring_case s ''normal''"
  "lower s = ''slow'' \<longleftrightarrow> same_ignoring_case s ''slow''"
  by (rule lower_eq_iff, simp add: letter_pairs_def)+

lemma not_same_empty: "\<not> same_ignoring_case [] (c # w)"
  by (simp add: same_ignoring_case_def)

lemma speed_reward_spec: "speed_reward (speed_of sp) = spec_speed_bonus sp"
proof (cases sp)
  case None
  have "lower ''normal'' = ''normal''" by (simp add: lower_def lower_char_def)
  with None show ?thesis
    by (simp add: speed_of_def speed_reward_def spec_speed_bonus_def get_default_def)
next
  case (Some s)
  show ?thesis
  proof (cases "s = []")
    case True
    have "lower ''normal'' = ''normal''" by (simp add: lower_def lower_char_def)
    with Some True show ?thesis
      by (simp add: speed_of_def speed_reward_def spec_speed_bonus_def get_default_def not_same_empty)
  next
    case False
    with Some show ?thesis
      by (simp add: speed_of_def speed_reward_def spec_speed_bonus_def get_default_def
          lower_words [symmetric])
  qed
qed

text \<open>
  Claim C2. A first-time completion (the milestone id is not in the completed set of the
  player found by email) awards 100 coins plus the speed bonus, which is read from the
  speed ignoring case: fast 50, normal 30, slow 15, anything else or no speed 30. The
  award is therefore one of 150, 130 and 115.
\<close>

theorem C2_award_by_speed:
  assumes "find_one (by_email (player_email q)) (coll_player s) = Some P"
    and "req_milestone_id q \<notin> set (get_default (completed_milestones (snd P)) [])"
  shows "\<exists>r. fst (complete_milestone (Some s) q) = Inr r
           \<and> av_coins_awarded r = 100 + spec_speed_bonus (speed q)
           \<and> av_coins_awarded r \<in> {150, 130, 115}"
proof -
  have "spec_speed_bonus (speed q) \<in> {50, 30, 15}"
    by (simp add: spec_speed_bonus_def split: option.splits)
  then show ?thesis
    using assms(2)
    by (auto simp: complete_milestone_response [OF assms(1)] response_for_def coins_for_def
        is_duplicate_def speed_reward_spec)
qed

theorem C2_award_by_speed_witness:
  "\<exists>r. fst (complete_milestone (Some demo_db) demo_fast) = Inr r
       \<and> av_coins_awarded r = 100 + spec_speed_bonus (speed demo_fast)
       \<and> av_coins_awarded r \<in> {150, 130, 115}"
  using C2_award_by_speed [of demo_fast demo_db "(1, demo_player)"]
  by (simp add: demo_db_def demo_fast_def demo_player_def by_email_def get_default_def)

section \<open>The player's document after one call\<close>

lemma revenue_player_after: "revenue_usd (player_after p q) = Some (new_revenue_for p q)"
  by (simp add: player_after_def set_revenue_def)

lemma player_after_duplicate:
  assumes "is_duplicate p q"
  shows "player_after p q
           = p\<lparr>revenue_usd := revenue_usd (player_after p q),
               unlocked_worlds := unlocked_worlds (player_after p q)\<rparr>"
  using assms
  by (cases "unlocks_for p q")
     (simp_all add: player_after_def set_revenue_def unlock_mut_def award_mut_def
        add_to_set_unlocked_def)

lemma complete_milestone_found:
  assumes ids: "unique_ids s" and found: "find_one (by_email (player_email q)) (coll_player s) = Some P"
  shows "complete_milestone (Some s) q =
           (Inr (response_for (snd P) q),
            Some (s\<lparr>coll_player := map (on_id (fst P) (\<lambda>_. player_after (snd P) q)) (coll_player s),
                    coll_reward := rewards_after (coll_reward s) P q\<rparr>))"
    and "find_one (by_email (player_email q))
           (map (on_id (fst P) (\<lambda>_. player_after (snd P) q)) (coll_player s))
         = Some (fst P, player_after (snd P) q)"
proof -
  have d: "distinct (map fst (coll_player s))" using ids by (simp add: unique_ids_def)
  show "complete_milestone (Some s) q =
           (Inr (response_for (snd P) q),
            Some (s\<lparr>coll_player := map (on_id (fst P) (\<lambda>_. player_after (snd P) q)) (coll_player s),
                    coll_reward := rewards_after (coll_reward s) P q\<rparr>))"
    by (rule complete_milestone_step [OF d found])
  show "find_one (by_email (player_email q))
           (map (on_id (fst P) (\<lambda>_. player_after (snd P) q)) (coll_player s))
         = Some (fst P, player_after (snd P) q)"
    by (rule find_after_own [OF d found])
qed

lemma on_id_frame:
  "x \<in> set (map (on_id k f) c) \<Longrightarrow> fst x \<noteq> k \<Longrightarrow> x \<in> set c"
  by (auto simp: on_id_def split: if_splits)

text \<open>
  Claim C3. On every call for an existing player, whether or not the milestone id is a
  duplicate, the new revenue is the sum, by the addition of floats, of the player's
  revenue (0.0 when the field is missing) and the revenue increase (0.0 when it is absent,
  and for the negative zero); it is the revenue of the response, and it is what the
  player's document holds after the call. The addition of floats gives the exact sum
  rounded to the nearest double: when both numbers and the result are finite, the result
  differs from the exact sum by at most the fraction \<open>2 ^ -53\<close> of it, and it is the exact
  sum whenever that has no more than 53 significant bits.
\<close>

theorem C3_revenue_path:
  assumes "unique_ids s"
    and "find_one (by_email (player_email q)) (coll_player s) = Some P"
  shows "\<exists>r s' d'. complete_milestone (Some s) q = (Inr r, Some s')
           \<and> resp_revenue_usd r
               = float_add (get_default (revenue_usd (snd P)) (Fin 0))
                   (case revenue_increase q of
                      None \<Rightarrow> Fin 0
                    | Some x \<Rightarrow> if x = NegZero then Fin 0 else x)
           \<and> find_one (by_email (player_email q)) (coll_player s') = Some (fst P, d')
           \<and> revenue_usd d' = Some (resp_revenue_usd r)
           \<and> (\<forall>a b w. get_default (revenue_usd (snd P)) (Fin 0) = Fin a
                   \<and> revenue_increase q = Some (Fin b) \<and> resp_revenue_usd r = Fin w \<longrightarrow>
                 2 ^ 53 * \<bar>w - (a + b)\<bar> \<le> \<bar>a + b\<bar>
                 \<and> (\<forall>m j. \<bar>a + b\<bar> = m * 2 ^ j \<and> m < 2 ^ 53 \<longrightarrow> w = a + b))"
proof -
  let ?cur = "get_default (revenue_usd (snd P)) (Fin 0)"
  let ?inc = "case revenue_increase q of None \<Rightarrow> Fin 0
              | Some x \<Rightarrow> if x = NegZero then Fin 0 else x"
  let ?r = "response_for (snd P) q"
  let ?d' = "player_after (snd P) q"
  let ?s' = "s\<lparr>coll_player := map (on_id (fst P) (\<lambda>_. ?d')) (coll_player s),
              coll_reward := rewards_after (coll_reward s) P q\<rparr>"
  have inc: "rev_inc_of (revenue_increase q) = ?inc"
    by (simp add: rev_inc_of_def truthy_def float_of_int_0 split: option.splits)
  have rev: "resp_revenue_usd ?r = float_add ?cur ?inc"
    by (simp add: response_for_def new_revenue_for_def inc float_of_int_0)
  have call: "complete_milestone (Some s) q = (Inr ?r, Some ?s')"
    by (rule complete_milestone_found(1) [OF assms])
  have found': "find_one (by_email (player_email q)) (coll_player ?s') = Some (fst P, ?d')"
    using complete_milestone_found(2) [OF assms] by simp
  have stored: "revenue_usd ?d' = Some (resp_revenue_usd ?r)"
    by (simp add: revenue_player_after response_for_def)
  have near: "\<forall>a b w. ?cur = Fin a \<and> revenue_increase q = Some (Fin b)
                \<and> resp_revenue_usd ?r = Fin w \<longrightarrow>
                 2 ^ 53 * \<bar>w - (a + b)\<bar> \<le> \<bar>a + b\<bar>
                 \<and> (\<forall>m j. \<bar>a + b\<bar> = m * 2 ^ j \<and> m < 2 ^ 53 \<longrightarrow> w = a + b)"
  proof (intro allI impI)
    fix a b w
    assume h: "?cur = Fin a \<and> revenue_increase q = Some (Fin b) \<and> resp_revenue_usd ?r = Fin w"
    then have c: "?cur = Fin a" and i: "?inc = Fin b" and w: "resp_revenue_usd ?r = Fin w"
      by simp_all
    have "resp_revenue_usd ?r = float_add (Fin a) (Fin b)"
      by (simp only: rev c i)
    with w have sum: "float_add (Fin a) (Fin b) = Fin w" by simp
    show "2 ^ 53 * \<bar>w - (a + b)\<bar> \<le> \<bar>a + b\<bar>
            \<and> (\<forall>m j. \<bar>a + b\<bar> = m * 2 ^ j \<and> m < 2 ^ 53 \<longrightarrow> w = a + b)"
      using float_add_error [OF sum] float_add_exact [OF sum] by blast
  qed
  from call rev found' stored near show ?thesis
    by (intro exI [of _ ?r] exI [of _ ?s'] exI [of _ ?d'] conjI)
qed

theorem C3_revenue_path_witness:
  "\<exists>r s' d'. complete_milestone (Some demo_done_db) demo_slow = (Inr r, Some s')
           \<and> resp_revenue_usd r = Fin (1000 * one_units)
           \<and> find_one (by_email (player_email demo_slow)) (coll_player s')
               = Some (fst (1 :: nat, demo_done_player), d')
           \<and> revenue_usd d' = Some (Fin (1000 * one_units))
           \<and> resp_revenue_usd r = Fin (0 * one_units + 1000 * one_units)"
proof -
  have ids: "unique_ids demo_done_db"
    by (simp add: unique_ids_def demo_done_db_def)
  have found: "find_one (by_email (player_email demo_slow)) (coll_player demo_done_db)
                 = Some (1, demo_done_player)"
    by (simp add: demo_done_db_def demo_slow_def demo_done_player_def by_email_def)
  have cur: "get_default (revenue_usd (snd (1 :: nat, demo_done_player))) (Fin 0) = Fin (0 * one_units)"
    by (simp add: demo_done_player_def get_default_def float_of_int_0)
  have inc: "revenue_increase demo_slow = Some (Fin (1000 * one_units))"
    by (simp add: demo_slow_def float_of_int_exact)
  from C3_revenue_path [OF ids found]
  obtain r s' d' where call: "complete_milestone (Some demo_done_db) demo_slow = (Inr r, Some s')"
    and rev: "resp_revenue_usd r
               = float_add (get_default (revenue_usd (snd (1 :: nat, demo_done_player))) (Fin 0))
                   (case revenue_increase demo_slow of
                      None \<Rightarrow> Fin 0
                    | Some x \<Rightarrow> if x = NegZero then Fin 0 else x)"
    and found': "find_one (by_email (player_email demo_slow)) (coll_player s')
                   = Some (fst (1 :: nat, demo_done_player), d')"
    and stored: "revenue_usd d' = Some (resp_revenue_usd r)"
    and near: "\<forall>a b w. get_default (revenue_usd (snd (1 :: nat, demo_done_player))) (Fin 0) = Fin a
                   \<and> revenue_increase demo_slow = Some (Fin b) \<and> resp_revenue_usd r = Fin w \<longrightarrow>
                 2 ^ 53 * \<bar>w - (a + b)\<bar> \<le> \<bar>a + b\<bar>
                 \<and> (\<forall>m j. \<bar>a + b\<bar> = m * 2 ^ j \<and> m < 2 ^ 53 \<longrightarrow> w = a + b)"
    by blast
  have "float_add (float_of_int 0) (float_of_int 1000) = float_of_int (0 + 1000)"
    by (rule float_add_ints) simp_all
  then have sum: "float_add (Fin (0 * one_units)) (Fin (1000 * one_units)) = Fin (1000 * one_units)"
    by (simp add: float_of_int_exact)
  have res: "resp_revenue_usd r = Fin (1000 * one_units)"
    unfolding rev cur inc using sum by simp
  have shape: "\<bar>0 * one_units + 1000 * one_units\<bar> = 1000 * 2 ^ 1074 \<and> (1000 :: int) < 2 ^ 53"
    by (simp add: one_units_def)
  have exact: "(1000 * one_units :: int) = 0 * one_units + 1000 * one_units"
    using near [rule_format, OF conjI [OF cur conjI [OF inc res]], THEN conjunct2, rule_format, OF shape] .
  from stored res have stored': "revenue_usd d' = Some (Fin (1000 * one_units))"
    by simp
  from res exact have sum': "resp_revenue_usd r = Fin (0 * one_units + 1000 * one_units)"
    by (simp only:)
  from call res found' stored' sum' show ?thesis
    by blast
qed

text \<open>
  Claim C10. A call whose milestone id is already in the player's completed set awards 0
  coins, creates no reward record and leaves the milestone collection alone. The player's
  document after the call differs from the one before in its revenue and its unlocked
  worlds at most, so the coin balance and the completed milestones are unchanged; no
  document is added or removed, and every other player's document is as it was.
\<close>

theorem C10_duplicate_frame:
  assumes "unique_ids s"
    and "find_one (by_email (player_email q)) (coll_player s) = Some P"
    and "req_milestone_id q \<in> set (get_default (completed_milestones (snd P)) [])"
  shows "\<exists>r s' d'. complete_milestone (Some s) q = (Inr r, Some s')
           \<and> av_coins_awarded r = 0
           \<and> coll_reward s' = coll_reward s
           \<and> coll_milestone s' = coll_milestone s
           \<and> find_one (by_email (player_email q)) (coll_player s') = Some (fst P, d')
           \<and> av_coins d' = av_coins (snd P)
           \<and> completed_milestones d' = completed_milestones (snd P)
           \<and> d' = (snd P)\<lparr>revenue_usd := revenue_usd d', unlocked_worlds := unlocked_worlds d'\<rparr>
           \<and> map fst (coll_player s') = map fst (coll_player s)
           \<and> (\<forall>x \<in> set (coll_player s'). fst x \<noteq> fst P \<longrightarrow> x \<in> set (coll_player s))"
proof -
  have dup: "is_duplicate (snd P) q"
    using assms(3) by (simp add: is_duplicate_def)
  let ?d' = "player_after (snd P) q"
  let ?s' = "s\<lparr>coll_player := map (on_id (fst P) (\<lambda>_. ?d')) (coll_player s),
              coll_reward := rewards_after (coll_reward s) P q\<rparr>"
  have shape: "?d' = (snd P)\<lparr>revenue_usd := revenue_usd ?d', unlocked_worlds := unlocked_worlds ?d'\<rparr>"
    by (rule player_after_duplicate [OF dup])
  have coins: "av_coins ?d' = av_coins (snd P)"
    by (subst shape) simp
  have compl: "completed_milestones ?d' = completed_milestones (snd P)"
    by (subst shape) simp
  have call: "complete_milestone (Some s) q = (Inr (response_for (snd P) q), Some ?s')"
    by (rule complete_milestone_found(1) [OF assms(1,2)])
  have zero: "av_coins_awarded (response_for (snd P) q) = 0"
    using dup by (simp add: response_for_def coins_for_def)
  have rew: "coll_reward ?s' = coll_reward s"
    using dup by (simp add: rewards_after_def)
  have mil: "coll_milestone ?s' = coll_milestone s"
    by simp
  have found': "find_one (by_email (player_email q)) (coll_player ?s') = Some (fst P, ?d')"
    using complete_milestone_found(2) [OF assms(1,2)] by simp
  have ids: "map fst (coll_player ?s') = map fst (coll_player s)"
    by (simp add: map_fst_on_id del: map_map)
  have frame: "\<forall>x \<in> set (coll_player ?s'). fst x \<noteq> fst P \<longrightarrow> x \<in> set (coll_player s)"
    using on_id_frame by fastforce
  from call zero rew mil found' coins compl shape ids frame show ?thesis
    by blast
qed

theorem C10_duplicate_frame_witness:
  "\<exists>r s' d'. complete_milestone (Some demo_done_db) demo_slow = (Inr r, Some s')
           \<and> av_coins_awarded r = 0
           \<and> coll_reward s' = coll_reward demo_done_db
           \<and> coll_milestone s' = coll_milestone demo_done_db
           \<and> find_one (by_email (player_email demo_slow)) (coll_player s')
               = Some (fst (1 :: nat, demo_done_player), d')
           \<and> av_coins d' = av_coins (snd (1 :: nat, demo_done_player))
           \<and> completed_milestones d' = completed_milestones (snd (1 :: nat, demo_done_player))
           \<and> d' = (snd (1 :: nat, demo_done_player))
                     \<lparr>revenue_usd := revenue_usd d', unlocked_worlds := unlocked_worlds d'\<rparr>
           \<and> map fst (coll_player s') = map fst (coll_player demo_done_db)"
proof -
  have "unique_ids demo_done_db"
    by (simp add: unique_ids_def demo_done_db_def)
  moreover have "find_one (by_email (player_email demo_slow)) (coll_player demo_done_db)
                   = Some (1, demo_done_player)"
    by (simp add: demo_done_db_def demo_slow_def demo_done_player_def by_email_def)
  moreover have "req_milestone_id demo_slow
                   \<in> set (get_default (completed_milestones (snd (1 :: nat, demo_done_player))) [])"
    by (simp add: demo_slow_def demo_done_player_def get_default_def)
  ultimately show ?thesis
    using C10_duplicate_frame [of demo_done_db demo_slow "(1, demo_done_player)"] by blast
qed

text \<open>
  Claim C5, at the input where the code departs from it: the player a@x.com has revenue
  0.0, and a call with a revenue increase of -5.0 answers with revenue -5.0 and stores it,
  below the revenue before the call and below zero.
\<close>

theorem C5_negative_increase:
  "get_default (revenue_usd demo_player) (Fin 0) = Fin 0
   \<and> revenue_increase demo_refund = Some (Fin (- (5 * one_units)))
   \<and> complete_milestone (Some demo_db) demo_refund =
       (Inr \<lparr>av_coins_awarded = 130, resp_revenue_usd = Fin (- (5 * one_units)),
             unlocked_world = None, message = progress_message\<rparr>,
        Some \<lparr>coll_player =
                [(1, demo_player\<lparr>av_coins := Some 130, revenue_usd := Some (Fin (- (5 * one_units))),
                                 completed_milestones := Some [''m1'']\<rparr>)],
              coll_milestone = [],
              coll_reward =
                [(1, \<lparr>player_id = 1, reward_milestone_id = ''m1'',
                      reason = ''Completed m1 (normal)'', coins = 130\<rparr>)]\<rparr>)
   \<and> - (5 * one_units) < 0
   \<and> \<not> float_ge_int (Fin (- (5 * one_units))) 0"
proof -
  have five: "float_of_int (- 5) = Fin (- (5 * one_units))"
    using float_of_int_exact [of "- 5"] by simp
  have "float_add (float_of_int 0) (float_of_int (- 5)) = float_of_int (0 + - 5)"
    by (rule float_add_ints) simp_all
  then have sum: "float_add (Fin 0) (Fin (- (5 * one_units))) = Fin (- (5 * one_units))"
    by (simp add: five float_of_int_0)
  have neg: "- (5 * one_units) < 0"
    using one_units_pos by simp
  then have inc: "rev_inc_of (Some (Fin (- (5 * one_units)))) = Fin (- (5 * one_units))"
    by (simp add: rev_inc_of_def truthy_def)
  have low: "\<not> float_ge_int (Fin (- (5 * one_units))) 0"
    using neg by (simp add: float_ge_int_def)
  have "\<not> 1000 * one_units \<le> - (5 * one_units)"
    using one_units_pos by simp
  then have locked: "\<not> float_ge_int (Fin (- (5 * one_units))) 1000"
    by (simp add: float_ge_int_def)
  have call: "complete_milestone (Some demo_db) demo_refund =
       (Inr \<lparr>av_coins_awarded = 130, resp_revenue_usd = Fin (- (5 * one_units)),
             unlocked_world = None, message = progress_message\<rparr>,
        Some \<lparr>coll_player =
                [(1, demo_player\<lparr>av_coins := Some 130, revenue_usd := Some (Fin (- (5 * one_units))),
                                 completed_milestones := Some [''m1'']\<rparr>)],
              coll_milestone = [],
              coll_reward =
                [(1, \<lparr>player_id = 1, reward_milestone_id = ''m1'',
                      reason = ''Completed m1 (normal)'', coins = 130\<rparr>)]\<rparr>)"
    using locked
    by (simp add: complete_milestone_def award_path_def revenue_path_def demo_db_def
        demo_player_def demo_refund_def by_email_def by_id_def get_default_def py_set_def
        py_add_def speed_of_def speed_reward_def lower_def lower_char_def reason_text_def
        create_document_def new_oid_def set_completed_inc_coins_def set_revenue_def
        five float_of_int_0 inc sum Let_def)
  have cur: "get_default (revenue_usd demo_player) (Fin 0) = Fin 0"
    by (simp add: demo_player_def get_default_def float_of_int_0)
  have req: "revenue_increase demo_refund = Some (Fin (- (5 * one_units)))"
    by (simp add: demo_refund_def five)
  from cur req call neg low show ?thesis
    by (intro conjI)
qed

section \<open>Error paths\<close>

lemma complete_milestone_no_db:
  "complete_milestone None q = (Inl (HTTPException 500 ''Database not configured''), None)"
  by (simp add: complete_milestone_def)

lemma complete_milestone_not_found:
  "find_one (by_email (player_email q)) (coll_player s) = None \<Longrightarrow>
   complete_milestone (Some s) q = (Inl (HTTPException 404 ''Player not found''), Some s)"
  by (simp add: complete_milestone_def)

lemma complete_milestone_ignores_catalog:
  "fst (complete_milestone (Some (s\<lparr>coll_milestone := c\<rparr>)) q) = fst (complete_milestone (Some s) q)"
proof (cases "find_one (by_email (player_email q)) (coll_player s)")
  case None
  then show ?thesis by (simp add: complete_milestone_def)
next
  case (Some P)
  then have "find_one (by_email (player_email q)) (coll_player (s\<lparr>coll_milestone := c\<rparr>)) = Some P"
    by simp
  then show ?thesis
    using Some by (simp only: complete_milestone_response)
qed

text \<open>
  Claim C8, as stated, fails without a database: \<open>complete_milestone\<close> and
  \<open>player_summary\<close> then raise the 500 error "Database not configured", which is not
  NotFound, although no player record exists for the email.
\<close>

theorem C8_no_database:
  "complete_milestone None demo_fast = (Inl (HTTPException 500 ''Database not configured''), None)
   \<and> player_summary None ''a@x.com'' = Inl (HTTPException 500 ''Database not configured'')
   \<and> HTTPException 500 ''Database not configured'' \<noteq> HTTPException 404 ''Player not found''"
  by (simp add: complete_milestone_def player_summary_def)

lemma cm_errors:
  "(fst (complete_milestone db q) = Inl (HTTPException 404 ''Player not found'')
      \<longleftrightarrow> (\<exists>s. db = Some s \<and> find_one (by_email (player_email q)) (coll_player s) = None))"
  "(fst (complete_milestone db q) = Inl (HTTPException 500 ''Database not configured'')
      \<longleftrightarrow> db = None)"
  "fst (complete_milestone db q) = Inl err \<longrightarrow>
         snd (complete_milestone db q) = db
         \<and> (err = HTTPException 404 ''Player not found''
            \<or> err = HTTPException 500 ''Database not configured'')"
proof -
  consider (nodb) "db = None"
    | (nf) s where "db = Some s" "find_one (by_email (player_email q)) (coll_player s) = None"
    | (ok) s P where "db = Some s" "find_one (by_email (player_email q)) (coll_player s) = Some P"
    by (cases db; cases "find_one (by_email (player_email q)) (coll_player (the db))") auto
  then have all: "(fst (complete_milestone db q) = Inl (HTTPException 404 ''Player not found'')
      \<longleftrightarrow> (\<exists>s. db = Some s \<and> find_one (by_email (player_email q)) (coll_player s) = None))
    \<and> (fst (complete_milestone db q) = Inl (HTTPException 500 ''Database not configured'')
      \<longleftrightarrow> db = None)
    \<and> (fst (complete_milestone db q) = Inl err \<longrightarrow>
         snd (complete_milestone db q) = db
         \<and> (err = HTTPException 404 ''Player not found''
            \<or> err = HTTPException 500 ''Database not configured''))"
  proof cases
    case nodb
    then show ?thesis by (simp add: complete_milestone_no_db)
  next
    case nf
    then show ?thesis by (simp add: complete_milestone_not_found)
  next
    case ok
    then show ?thesis by (simp add: complete_milestone_response)
  qed
  from all show "(fst (complete_milestone db q) = Inl (HTTPException 404 ''Player not found'')
      \<longleftrightarrow> (\<exists>s. db = Some s \<and> find_one (by_email (player_email q)) (coll_player s) = None))"
    by (rule conjunct1)
  from all show "(fst (complete_milestone db q) = Inl (HTTPException 500 ''Database not configured'')
      \<longleftrightarrow> db = None)"
    by (rule conjunct1 [OF conjunct2])
  from all show "fst (complete_milestone db q) = Inl err \<longrightarrow>
         snd (complete_milestone db q) = db
         \<and> (err = HTTPException 404 ''Player not found''
            \<or> err = HTTPException 500 ''Database not configured'')"
    by (rule conjunct2 [OF conjunct2])
qed

lemma ps_errors:
  "(player_summary db e = Inl (HTTPException 404 ''Player not found'')
      \<longleftrightarrow> (\<exists>s. db = Some s \<and> find_one (by_email e) (coll_player s) = None))"
  "(player_summary db e = Inl (HTTPException 500 ''Database not configured'')
      \<longleftrightarrow> db = None)"
  "player_summary db e = Inl err \<longrightarrow>
         err = HTTPException 404 ''Player not found''
         \<or> err = HTTPException 500 ''Database not configured''"
proof -
  consider (nodb) "db = None"
    | (nf) s where "db = Some s" "find_one (by_email e) (coll_player s) = None"
    | (ok) s P where "db = Some s" "find_one (by_email e) (coll_player s) = Some P"
    by (cases db; cases "find_one (by_email e) (coll_player (the db))") auto
  then have all: "(player_summary db e = Inl (HTTPException 404 ''Player not found'')
      \<longleftrightarrow> (\<exists>s. db = Some s \<and> find_one (by_email e) (coll_player s) = None))
    \<and> (player_summary db e = Inl (HTTPException 500 ''Database not configured'')
      \<longleftrightarrow> db = None)
    \<and> (player_summary db e = Inl err \<longrightarrow>
         err = HTTPException 404 ''Player not found''
         \<or> err = HTTPException 500 ''Database not configured'')"
  proof cases
    case nodb
    then show ?thesis by (simp add: player_summary_def)
  next
    case nf
    then show ?thesis by (simp add: player_summary_def)
  next
    case ok
    then show ?thesis by (simp add: player_summary_def)
  qed
  from all show "(player_summary db e = Inl (HTTPException 404 ''Player not found'')
      \<longleftrightarrow> (\<exists>s. db = Some s \<and> find_one (by_email e) (coll_player s) = None))"
    by (rule conjunct1)
  from all show "(player_summary db e = Inl (HTTPException 500 ''Database not configured'')
      \<longleftrightarrow> db = None)"
    by (rule conjunct1 [OF conjunct2])
  from all show "player_summary db e = Inl err \<longrightarrow>
         err = HTTPException 404 ''Player not found''
         \<or> err = HTTPException 500 ''Database not configured''"
    by (rule conjunct2 [OF conjunct2])
qed

text \<open>
  Claim C8, amended. \<open>complete_milestone\<close> and \<open>player_summary\<close> fail with NotFound
  (404) exactly when the database is configured and holds no player record for the email,
  and with the 500 error exactly when the database is not configured; they have no other
  error. A failing \<open>complete_milestone\<close> leaves the database as it was. The milestone
  collection is never consulted: the outcome is the same whatever the catalog holds, so an
  id absent from the catalog is processed like any other.
\<close>

theorem C8_error_paths:
  "(fst (complete_milestone db q) = Inl (HTTPException 404 ''Player not found'')
      \<longleftrightarrow> (\<exists>s. db = Some s \<and> find_one (by_email (player_email q)) (coll_player s) = None))
   \<and> (fst (complete_milestone db q) = Inl (HTTPException 500 ''Database not configured'')
      \<longleftrightarrow> db = None)
   \<and> (\<forall>err. fst (complete_milestone db q) = Inl err \<longrightarrow>
         snd (complete_milestone db q) = db
         \<and> (err = HTTPException 404 ''Player not found''
            \<or> err = HTTPException 500 ''Database not configured''))
   \<and> (\<forall>s c. fst (complete_milestone (Some (s\<lparr>coll_milestone := c\<rparr>)) q)
               = fst (complete_milestone (Some s) q))
   \<and> (player_summary db e = Inl (HTTPException 404 ''Player not found'')
      \<longleftrightarrow> (\<exists>s. db = Some s \<and> find_one (by_email e) (coll_player s) = None))
   \<and> (player_summary db e = Inl (HTTPException 500 ''Database not configured'')
      \<longleftrightarrow> db = None)
   \<and> (\<forall>err. player_summary db e = Inl err \<longrightarrow>
         err = HTTPException 404 ''Player not found''
         \<or> err = HTTPException 500 ''Database not configured'')"
  by (intro conjI allI)
     (rule cm_errors(1), rule cm_errors(2), rule cm_errors(3),
      rule complete_milestone_ignores_catalog,
      rule ps_errors(1), rule ps_errors(2), rule ps_errors(3))

theorem C8_error_paths_witness:
  "fst (complete_milestone (Some demo_db) demo_ghost) = Inl (HTTPException 404 ''Player not found'')
   \<and> snd (complete_milestone (Some demo_db) demo_ghost) = Some demo_db
   \<and> player_summary (Some demo_db) ''nobody@x.com'' = Inl (HTTPException 404 ''Player not found'')"
proof -
  have nf: "find_one (by_email (player_email demo_ghost)) (coll_player demo_db) = None"
    by (simp add: demo_db_def demo_ghost_def demo_player_def by_email_def)
  have nf': "find_one (by_email ''nobody@x.com'') (coll_player demo_db) = None"
    by (simp add: demo_db_def demo_player_def by_email_def)
  note c8 = C8_error_paths [of "Some demo_db" demo_ghost "''nobody@x.com''"]
  have a: "fst (complete_milestone (Some demo_db) demo_ghost) = Inl (HTTPException 404 ''Player not found'')"
    using c8 [THEN conjunct1] nf by simp
  have b: "snd (complete_milestone (Some demo_db) demo_ghost) = Some demo_db"
    using c8 [THEN conjunct2, THEN conjunct2, THEN conjunct1] a by simp
  have c: "player_summary (Some demo_db) ''nobody@x.com'' = Inl (HTTPException 404 ''Player not found'')"
    using c8 [THEN conjunct2, THEN conjunct2, THEN conjunct2, THEN conjunct2, THEN conjunct1] nf' by simp
  from a b c show ?thesis by simp
qed

section \<open>One player's calls in sequence\<close>

lemma traced_Nil: "traced p [] = []"
  by (simp add: traced_def)

lemma traced_Cons: "traced p (q # cs) = (q, Inr (response_for p q)) # traced (player_after p q) cs"
  by (simp add: traced_def)

lemma fst_traced: "x \<in> set (traced p cs) \<Longrightarrow> fst x \<in> set cs"
  by (cases x) (auto simp: traced_def dest: set_zip_leftD)

lemma get_default_Some: "get_default (Some v) d = v"
  by (simp add: get_default_def)

lemma set_py_add: "set (py_add x xs) = insert x (set xs)"
  by (auto simp: py_add_def)

lemma set_py_set: "set (py_set xs) = set xs"
  by (simp add: py_set_def)

lemma sum_list_zero: "\<forall>x \<in> set xs. f x = (0 :: int) \<Longrightarrow> sum_list (map f xs) = 0"
  by (induction xs) simp_all

lemma completed_player_after:
  "set (get_default (completed_milestones (player_after p q)) [])
     = insert (req_milestone_id q) (set (get_default (completed_milestones p) []))"
proof (cases "is_duplicate p q")
  case True
  then have "completed_milestones (player_after p q) = completed_milestones p"
    by (simp add: player_after_def set_revenue_def unlock_mut_def award_mut_def
        add_to_set_unlocked_def)
  with True show ?thesis by (auto simp: is_duplicate_def)
next
  case False
  then have "completed_milestones (player_after p q)
               = Some (py_add (req_milestone_id q) (py_set (get_default (completed_milestones p) [])))"
    by (simp add: player_after_def set_revenue_def unlock_mut_def award_mut_def
        add_to_set_unlocked_def set_completed_inc_coins_def)
  then show ?thesis
    by (simp add: get_default_Some set_py_add set_py_set)
qed

lemma completed_foldl:
  "set (get_default (completed_milestones (foldl player_after p cs)) [])
     = set (get_default (completed_milestones p) []) \<union> req_milestone_id ` set cs"
  by (induction cs arbitrary: p) (auto simp: completed_player_after)

lemma coins_response:
  "coins_of (Inr (response_for p q))
     = (if req_milestone_id q \<in> set (get_default (completed_milestones p) []) then 0
        else 100 + spec_speed_bonus (speed q))"
  by (simp add: coins_of_def response_for_def coins_for_def is_duplicate_def speed_reward_spec)

lemma hits_completed:
  "m \<in> set (get_default (completed_milestones p) []) \<Longrightarrow>
   \<forall>x \<in> set (hits_of m (traced p cs)). coins_of (snd x) = 0"
proof (induction cs arbitrary: p)
  case Nil
  show ?case by (simp add: traced_Nil hits_of_def)
next
  case (Cons q cs)
  have "m \<in> set (get_default (completed_milestones (player_after p q)) [])"
    using Cons.prems by (simp add: completed_player_after)
  from Cons.IH [OF this] Cons.prems show ?case
    by (simp add: traced_Cons hits_of_def coins_response)
qed

lemma hits_first:
  "m \<notin> set (get_default (completed_milestones p) []) \<Longrightarrow>
   hits_of m (traced p cs) = h # t \<Longrightarrow>
   coins_of (snd h) = 100 + spec_speed_bonus (speed (fst h)) \<and> (\<forall>x \<in> set t. coins_of (snd x) = 0)"
proof (induction cs arbitrary: p)
  case Nil
  then show ?case by (simp add: traced_Nil hits_of_def)
next
  case (Cons q cs)
  show ?case
  proof (cases "req_milestone_id q = m")
    case True
    have after: "m \<in> set (get_default (completed_milestones (player_after p q)) [])"
      using True by (simp add: completed_player_after)
    from Cons.prems(2) True
    have h: "h = (q, Inr (response_for p q))" and t: "t = hits_of m (traced (player_after p q) cs)"
      by (simp_all add: traced_Cons hits_of_def)
    from hits_completed [OF after, of cs] Cons.prems(1) True show ?thesis
      by (simp add: h t coins_response)
  next
    case False
    then have "m \<notin> set (get_default (completed_milestones (player_after p q)) [])"
      using Cons.prems(1) by (auto simp: completed_player_after)
    moreover have "hits_of m (traced (player_after p q) cs) = h # t"
      using Cons.prems(2) False by (simp add: traced_Cons hits_of_def)
    ultimately show ?thesis by (rule Cons.IH)
  qed
qed

lemma awards_once:
  "awards m p cs
     = (if m \<in> set (get_default (completed_milestones p) []) \<or> hits_of m (traced p cs) = []
        then 0 else 1)"
proof (induction cs arbitrary: p)
  case Nil
  show ?case by (simp add: traced_Nil hits_of_def)
next
  case (Cons q cs)
  show ?case
  proof (cases "req_milestone_id q = m")
    case True
    then have "m \<in> set (get_default (completed_milestones (player_after p q)) [])"
      by (simp add: completed_player_after)
    with True show ?thesis
      by (simp add: Cons.IH traced_Cons hits_of_def is_duplicate_def)
  next
    case False
    then have "m \<in> set (get_default (completed_milestones (player_after p q)) [])
                 \<longleftrightarrow> m \<in> set (get_default (completed_milestones p) [])"
      by (auto simp: completed_player_after)
    with False show ?thesis
      by (simp add: Cons.IH traced_Cons hits_of_def)
  qed
qed

lemma hits_sum:
  "sum_list (map (\<lambda>x. coins_of (snd x)) (hits_of m (traced p cs)))
     = (if m \<in> set (get_default (completed_milestones p) []) \<or> hits_of m (traced p cs) = []
        then 0
        else 100 + spec_speed_bonus (speed (fst (hd (hits_of m (traced p cs))))))"
proof (cases "m \<in> set (get_default (completed_milestones p) [])")
  case True
  from hits_completed [OF True, of cs]
  have "sum_list (map (\<lambda>x. coins_of (snd x)) (hits_of m (traced p cs))) = 0"
    by (rule sum_list_zero)
  with True show ?thesis by simp
next
  case False
  show ?thesis
  proof (cases "hits_of m (traced p cs)")
    case Nil
    then show ?thesis by simp
  next
    case (Cons h t)
    from hits_first [OF False Cons]
    have h: "coins_of (snd h) = 100 + spec_speed_bonus (speed (fst h))"
      and t: "\<forall>x \<in> set t. coins_of (snd x) = 0"
      by simp_all
    from t have "sum_list (map (\<lambda>x. coins_of (snd x)) t) = 0"
      by (rule sum_list_zero)
    with False Cons h show ?thesis by simp
  qed
qed

lemma hits_mentions:
  "hits_of m (traced p cs) \<noteq> [] \<Longrightarrow> m \<in> req_milestone_id ` set cs"
proof -
  assume "hits_of m (traced p cs) \<noteq> []"
  then obtain x where "x \<in> set (hits_of m (traced p cs))"
    by (cases "hits_of m (traced p cs)") auto
  then have "x \<in> set (traced p cs)" and "req_milestone_id (fst x) = m"
    by (simp_all add: hits_of_def)
  then show ?thesis using fst_traced by blast
qed

lemma balance_player_after:
  "get_default (av_coins (player_after p q)) 0 = get_default (av_coins p) 0 + coins_for p q"
proof (cases "is_duplicate p q")
  case True
  then have "av_coins (player_after p q) = av_coins p"
    by (simp add: player_after_def set_revenue_def unlock_mut_def award_mut_def
        add_to_set_unlocked_def)
  with True show ?thesis by (simp add: coins_for_def)
next
  case False
  then have "av_coins (player_after p q) = Some (get_default (av_coins p) 0 + coins_for p q)"
    by (simp add: player_after_def set_revenue_def unlock_mut_def award_mut_def
        add_to_set_unlocked_def set_completed_inc_coins_def)
  then show ?thesis by (simp add: get_default_Some)
qed

lemma balance_foldl:
  "get_default (av_coins (foldl player_after p cs)) 0
     = get_default (av_coins p) 0 + sum_list (map (\<lambda>x. coins_of (snd x)) (traced p cs))"
proof (induction cs arbitrary: p)
  case Nil
  show ?case by (simp add: traced_Nil)
next
  case (Cons q cs)
  have "coins_of (Inr (response_for p q)) = coins_for p q"
    by (simp add: coins_of_def response_for_def)
  then show ?case
    by (simp add: Cons.IH traced_Cons balance_player_after)
qed

lemma sum_list_split:
  "sum_list (map f xs)
     = sum_list (map f (filter P xs)) + (sum_list (map f (filter (\<lambda>x. \<not> P x) xs)) :: int)"
  by (induction xs) simp_all

text \<open>
  Claim C1. Take any run of \<open>complete_milestone\<close> calls on a store with unique ids where
  the player \<open>e\<close> exists, and in it the calls for that player with the milestone id \<open>m\<close>.
  If \<open>m\<close> is in the player's completed set at the start, each of them reports 0 coins.
  Otherwise the first of them reports the full amount, 100 plus the speed bonus, and
  every later one reports 0. So the coins reported for \<open>m\<close> sum to one full amount or to
  0, the run creates one reward record for the player and \<open>m\<close> or none, and after any
  such call \<open>m\<close> is in the player's completed set. The coins reported are the coins
  credited: the player's balance after the run is the balance before it, plus the coins
  reported for \<open>m\<close>, plus the coins reported to the player for the other milestone ids.
\<close>

theorem C1_award_once:
  assumes "unique_ids s" and "find_one (by_email e) (coll_player s) = Some P"
  shows "(m \<in> set (get_default (completed_milestones (snd P)) []) \<longrightarrow>
            (\<forall>x \<in> set (hits_in s e m qs). coins_of (snd x) = 0))
       \<and> (m \<notin> set (get_default (completed_milestones (snd P)) []) \<longrightarrow>
            (\<forall>h t. hits_in s e m qs = h # t \<longrightarrow>
               coins_of (snd h) = 100 + spec_speed_bonus (speed (fst h))
               \<and> (\<forall>x \<in> set t. coins_of (snd x) = 0)))
       \<and> sum_list (map (\<lambda>x. coins_of (snd x)) (hits_in s e m qs))
           = (if m \<in> set (get_default (completed_milestones (snd P)) []) \<or> hits_in s e m qs = []
              then 0
              else 100 + spec_speed_bonus (speed (fst (hd (hits_in s e m qs)))))
       \<and> (\<exists>s' d'. snd (complete_all (Some s) qs) = Some s'
             \<and> find_one (by_email e) (coll_player s') = Some (fst P, d')
             \<and> set (get_default (completed_milestones (snd P)) [])
                 \<subseteq> set (get_default (completed_milestones d') [])
             \<and> (hits_in s e m qs \<noteq> [] \<longrightarrow> m \<in> set (get_default (completed_milestones d') []))
             \<and> reward_count (fst P) m (coll_reward s')
                 = reward_count (fst P) m (coll_reward s)
                   + (if m \<in> set (get_default (completed_milestones (snd P)) [])
                         \<or> hits_in s e m qs = []
                      then 0 else 1)
             \<and> get_default (av_coins d') 0
                 = get_default (av_coins (snd P)) 0
                   + sum_list (map (\<lambda>x. coins_of (snd x)) (hits_in s e m qs))
                   + sum_list (map (\<lambda>x. coins_of (snd x)) (others_in s e m qs)))"
proof -
  from complete_all_player [OF assms, of qs m]
  obtain s' where run: "snd (complete_all (Some s) qs) = Some s'"
    and found: "find_one (by_email e) (coll_player s')
                  = Some (fst P, foldl player_after (snd P) (calls_of e qs))"
    and res: "results_of e qs (fst (complete_all (Some s) qs)) = traced (snd P) (calls_of e qs)"
    and rew: "reward_count (fst P) m (coll_reward s')
                = reward_count (fst P) m (coll_reward s) + awards m (snd P) (calls_of e qs)"
    unfolding traced_def by blast
  have hits: "hits_in s e m qs = hits_of m (traced (snd P) (calls_of e qs))"
    by (simp add: hits_in_def res)
  have c1: "m \<in> set (get_default (completed_milestones (snd P)) []) \<longrightarrow>
            (\<forall>x \<in> set (hits_in s e m qs). coins_of (snd x) = 0)"
    unfolding hits using hits_completed by blast
  have c2: "m \<notin> set (get_default (completed_milestones (snd P)) []) \<longrightarrow>
            (\<forall>h t. hits_in s e m qs = h # t \<longrightarrow>
               coins_of (snd h) = 100 + spec_speed_bonus (speed (fst h))
               \<and> (\<forall>x \<in> set t. coins_of (snd x) = 0))"
    unfolding hits using hits_first by blast
  have c3: "sum_list (map (\<lambda>x. coins_of (snd x)) (hits_in s e m qs))
           = (if m \<in> set (get_default (completed_milestones (snd P)) []) \<or> hits_in s e m qs = []
              then 0
              else 100 + spec_speed_bonus (speed (fst (hd (hits_in s e m qs)))))"
    unfolding hits by (rule hits_sum)
  let ?d' = "foldl player_after (snd P) (calls_of e qs)"
  have sub: "set (get_default (completed_milestones (snd P)) [])
               \<subseteq> set (get_default (completed_milestones ?d') [])"
    by (simp add: completed_foldl)
  have mem: "hits_in s e m qs \<noteq> [] \<longrightarrow> m \<in> set (get_default (completed_milestones ?d') [])"
    unfolding hits using hits_mentions by (auto simp: completed_foldl)
  have cnt: "reward_count (fst P) m (coll_reward s')
                 = reward_count (fst P) m (coll_reward s)
                   + (if m \<in> set (get_default (completed_milestones (snd P)) [])
                         \<or> hits_in s e m qs = []
                      then 0 else 1)"
    unfolding hits rew by (simp add: awards_once)
  have others: "others_in s e m qs
                  = filter (\<lambda>x. req_milestone_id (fst x) \<noteq> m) (traced (snd P) (calls_of e qs))"
    by (simp add: others_in_def res)
  have bal: "get_default (av_coins ?d') 0
               = get_default (av_coins (snd P)) 0
                 + sum_list (map (\<lambda>x. coins_of (snd x)) (hits_in s e m qs))
                 + sum_list (map (\<lambda>x. coins_of (snd x)) (others_in s e m qs))"
    unfolding hits others hits_of_def balance_foldl
    using sum_list_split [where f = "\<lambda>x. coins_of (snd x)"
        and P = "\<lambda>x. req_milestone_id (fst x) = m" and xs = "traced (snd P) (calls_of e qs)"]
    by simp
  from run found sub mem cnt bal
  have c4: "\<exists>s' d'. snd (complete_all (Some s) qs) = Some s'
             \<and> find_one (by_email e) (coll_player s') = Some (fst P, d')
             \<and> set (get_default (completed_milestones (snd P)) [])
                 \<subseteq> set (get_default (completed_milestones d') [])
             \<and> (hits_in s e m qs \<noteq> [] \<longrightarrow> m \<in> set (get_default (completed_milestones d') []))
             \<and> reward_count (fst P) m (coll_reward s')
                 = reward_count (fst P) m (coll_reward s)
                   + (if m \<in> set (get_default (completed_milestones (snd P)) [])
                         \<or> hits_in s e m qs = []
                      then 0 else 1)
             \<and> get_default (av_coins d') 0
                 = get_default (av_coins (snd P)) 0
                   + sum_list (map (\<lambda>x. coins_of (snd x)) (hits_in s e m qs))
                   + sum_list (map (\<lambda>x. coins_of (snd x)) (others_in s e m qs))"
    by (intro exI [of _ s'] exI [of _ ?d'] conjI)
  from c1 c2 c3 c4 show ?thesis by (intro conjI)
qed

theorem C1_award_once_witness:
  "sum_list (map (\<lambda>x. coins_of (snd x)) (hits_in demo_db ''a@x.com'' ''m1'' [demo_fast, demo_slow]))
     = 150
   \<and> (\<exists>s' d'. snd (complete_all (Some demo_db) [demo_fast, demo_slow]) = Some s'
         \<and> find_one (by_email ''a@x.com'') (coll_player s') = Some (1, d')
         \<and> ''m1'' \<in> set (get_default (completed_milestones d') [])
         \<and> reward_count 1 ''m1'' (coll_reward s') = 1
         \<and> get_default (av_coins d') 0 = 150)"
proof -
  have ids: "unique_ids demo_db"
    by (simp add: unique_ids_def demo_db_def)
  have found: "find_one (by_email ''a@x.com'') (coll_player demo_db) = Some (1, demo_player)"
    by (simp add: demo_db_def demo_player_def by_email_def)
  have calls: "calls_of ''a@x.com'' [demo_fast, demo_slow] = [demo_fast, demo_slow]"
    by (simp add: calls_of_def demo_fast_def demo_slow_def)
  from complete_all_player [OF ids found, of "[demo_fast, demo_slow]" "''m1''"]
  have "results_of ''a@x.com'' [demo_fast, demo_slow]
          (fst (complete_all (Some demo_db) [demo_fast, demo_slow]))
        = traced demo_player [demo_fast, demo_slow]"
    unfolding traced_def calls by auto
  then have hits: "hits_in demo_db ''a@x.com'' ''m1'' [demo_fast, demo_slow]
                     = (demo_fast, Inr (response_for demo_player demo_fast))
                       # hits_of ''m1'' (traced (player_after demo_player demo_fast) [demo_slow])"
    and others: "others_in demo_db ''a@x.com'' ''m1'' [demo_fast, demo_slow] = []"
    by (simp_all add: hits_in_def others_in_def traced_Cons traced_Nil hits_of_def demo_fast_def
        demo_slow_def)
  have fresh: "''m1'' \<notin> set (get_default (completed_milestones (snd (1 :: nat, demo_player))) [])"
    by (simp add: demo_player_def get_default_def)
  have bonus: "spec_speed_bonus (speed demo_fast) = 50"
    by (simp add: demo_fast_def spec_speed_bonus_def same_ignoring_case_def same_letter_def
        letter_pairs_def)
  have none: "reward_count 1 ''m1'' (coll_reward demo_db) = 0"
    by (simp add: reward_count_def demo_db_def)
  note c1 = C1_award_once [OF ids found, of "''m1''" "[demo_fast, demo_slow]"]
  have total: "sum_list (map (\<lambda>x. coins_of (snd x))
                 (hits_in demo_db ''a@x.com'' ''m1'' [demo_fast, demo_slow])) = 150"
    using c1 [THEN conjunct2, THEN conjunct2, THEN conjunct1] fresh
    by (simp add: hits bonus)
  from c1 [THEN conjunct2, THEN conjunct2, THEN conjunct2]
  obtain s' d' where run: "snd (complete_all (Some demo_db) [demo_fast, demo_slow]) = Some s'"
    and found': "find_one (by_email ''a@x.com'') (coll_player s') = Some (fst (1 :: nat, demo_player), d')"
    and mem: "hits_in demo_db ''a@x.com'' ''m1'' [demo_fast, demo_slow] \<noteq> [] \<longrightarrow>
                ''m1'' \<in> set (get_default (completed_milestones d') [])"
    and cnt: "reward_count (fst (1 :: nat, demo_player)) ''m1'' (coll_reward s')
                = reward_count (fst (1 :: nat, demo_player)) ''m1'' (coll_reward demo_db)
                  + (if ''m1'' \<in> set (get_default (completed_milestones (snd (1 :: nat, demo_player))) [])
                        \<or> hits_in demo_db ''a@x.com'' ''m1'' [demo_fast, demo_slow] = []
                     then 0 else 1)"
    and bal: "get_default (av_coins d') 0
                = get_default (av_coins (snd (1 :: nat, demo_player))) 0
                  + sum_list (map (\<lambda>x. coins_of (snd x))
                       (hits_in demo_db ''a@x.com'' ''m1'' [demo_fast, demo_slow]))
                  + sum_list (map (\<lambda>x. coins_of (snd x))
                       (others_in demo_db ''a@x.com'' ''m1'' [demo_fast, demo_slow]))"
    by blast
  have found1: "find_one (by_email ''a@x.com'') (coll_player s') = Some (1, d')"
    using found' by simp
  have mem1: "''m1'' \<in> set (get_default (completed_milestones d') [])"
    using mem by (simp add: hits)
  have cnt1: "reward_count 1 ''m1'' (coll_reward s') = 1"
    using cnt fresh none by (simp add: hits)
  have bal1: "get_default (av_coins d') 0 = 150"
    unfolding bal total others by (simp add: demo_player_def get_default_def)
  from total run found1 mem1 cnt1 bal1 show ?thesis by blast
qed

section \<open>The unlocked worlds\<close>

lemma worlds_player_after:
  "get_default (unlocked_worlds (player_after p q)) []
     = (if unlocks_for p q then get_default (unlocked_worlds p) [] @ [''world_1'']
        else get_default (unlocked_worlds p) [])"
proof (cases "unlocks_for p q")
  case True
  then have "''world_1'' \<notin> set (get_default (unlocked_worlds p) [])"
    by (simp add: unlocks_for_def)
  moreover have "unlocked_worlds (player_after p q)
                   = Some (py_add ''world_1'' (get_default (unlocked_worlds p) []))"
    using True
    by (simp add: player_after_def set_revenue_def unlock_mut_def award_mut_def
        add_to_set_unlocked_def set_completed_inc_coins_def)
  ultimately show ?thesis
    using True by (simp add: get_default_Some py_add_def)
next
  case False
  then have "unlocked_worlds (player_after p q) = unlocked_worlds p"
    by (simp add: player_after_def set_revenue_def unlock_mut_def award_mut_def
        set_completed_inc_coins_def)
  with False show ?thesis by simp
qed

lemma count_player_after:
  "count_list (get_default (unlocked_worlds (player_after p q)) []) w
     \<le> max 1 (count_list (get_default (unlocked_worlds p) []) w)"
proof (cases "unlocks_for p q")
  case True
  then have "''world_1'' \<notin> set (get_default (unlocked_worlds p) [])"
    by (simp add: unlocks_for_def)
  then have "count_list (get_default (unlocked_worlds p) []) ''world_1'' = 0"
    by (simp add: count_list_0_iff)
  with True show ?thesis by (auto simp: worlds_player_after)
next
  case False
  then show ?thesis by (simp add: worlds_player_after)
qed

lemma count_foldl:
  "count_list (get_default (unlocked_worlds (foldl player_after p cs)) []) w
     \<le> max 1 (count_list (get_default (unlocked_worlds p) []) w)"
proof (induction cs arbitrary: p)
  case Nil
  show ?case by simp
next
  case (Cons q cs)
  have "count_list (get_default (unlocked_worlds (foldl player_after (player_after p q) cs)) []) w
          \<le> max 1 (count_list (get_default (unlocked_worlds (player_after p q)) []) w)"
    by (rule Cons.IH)
  also have "\<dots> \<le> max 1 (count_list (get_default (unlocked_worlds p) []) w)"
    using count_player_after [of p q w] by simp
  finally show ?case by simp
qed

lemma reports_response:
  "reports_unlock (Inr (response_for p q)) = unlocks_for p q"
  by (simp add: reports_unlock_def response_for_def)

lemma unlock_free:
  "''world_1'' \<in> set (get_default (unlocked_worlds p) []) \<Longrightarrow>
   filter (\<lambda>x. reports_unlock (snd x)) (traced p cs) = []"
proof (induction cs arbitrary: p)
  case Nil
  show ?case by (simp add: traced_Nil)
next
  case (Cons q cs)
  from Cons.prems have no: "\<not> unlocks_for p q"
    by (simp add: unlocks_for_def)
  then have "''world_1'' \<in> set (get_default (unlocked_worlds (player_after p q)) [])"
    using Cons.prems by (simp add: worlds_player_after)
  from Cons.IH [OF this] no show ?case
    by (simp add: traced_Cons reports_response)
qed

lemma unlock_once:
  "length (filter (\<lambda>x. reports_unlock (snd x)) (traced p cs)) \<le> 1"
proof (induction cs arbitrary: p)
  case Nil
  show ?case by (simp add: traced_Nil)
next
  case (Cons q cs)
  show ?case
  proof (cases "unlocks_for p q")
    case True
    then have "''world_1'' \<in> set (get_default (unlocked_worlds (player_after p q)) [])"
      by (simp add: worlds_player_after)
    from unlock_free [OF this, of cs] True show ?thesis
      by (simp add: traced_Cons reports_response)
  next
    case False
    with Cons.IH [of "player_after p q"] show ?thesis
      by (simp add: traced_Cons reports_response)
  qed
qed

text \<open>
  Claim C4. A call for an existing player reports world_1 as unlocked exactly when the new
  revenue is at least 1000 and world_1 is not in the player's unlocked worlds as read at
  the start; then world_1 is added to them, and otherwise the call reports none and the
  unlocked worlds stay as they were. Hence in any run of calls the player is reported as
  unlocking world_1 at most once, and no world comes to appear more than once in the
  player's unlocked worlds.
\<close>

theorem C4_world_unlock:
  assumes "unique_ids s" and "find_one (by_email e) (coll_player s) = Some P"
    and "player_email q = e"
  shows "(\<exists>r s' d'. complete_milestone (Some s) q = (Inr r, Some s')
            \<and> find_one (by_email e) (coll_player s') = Some (fst P, d')
            \<and> (unlocked_world r = Some ''world_1''
                 \<longleftrightarrow> float_ge_int (resp_revenue_usd r) 1000
                     \<and> ''world_1'' \<notin> set (get_default (unlocked_worlds (snd P)) []))
            \<and> (unlocked_world r = Some ''world_1'' \<or> unlocked_world r = None)
            \<and> get_default (unlocked_worlds d') []
                = (if unlocked_world r = Some ''world_1''
                   then get_default (unlocked_worlds (snd P)) [] @ [''world_1'']
                   else get_default (unlocked_worlds (snd P)) []))
       \<and> length (filter (\<lambda>x. reports_unlock (snd x))
                   (results_of e qs (fst (complete_all (Some s) qs)))) \<le> 1
       \<and> (\<exists>s' d'. snd (complete_all (Some s) qs) = Some s'
             \<and> find_one (by_email e) (coll_player s') = Some (fst P, d')
             \<and> (\<forall>w. count_list (get_default (unlocked_worlds d') []) w
                       \<le> max 1 (count_list (get_default (unlocked_worlds (snd P)) []) w)))"
proof -
  from complete_milestone_own [OF assms]
  obtain s1 where call: "complete_milestone (Some s) q = (Inr (response_for (snd P) q), Some s1)"
    and found1: "find_one (by_email e) (coll_player s1) = Some (fst P, player_after (snd P) q)"
    by blast
  have iff: "unlocked_world (response_for (snd P) q) = Some ''world_1''
               \<longleftrightarrow> float_ge_int (resp_revenue_usd (response_for (snd P) q)) 1000
                   \<and> ''world_1'' \<notin> set (get_default (unlocked_worlds (snd P)) [])"
    by (simp add: response_for_def unlocks_for_def)
  have alt: "unlocked_world (response_for (snd P) q) = Some ''world_1''
               \<or> unlocked_world (response_for (snd P) q) = None"
    by (simp add: response_for_def)
  have worlds: "get_default (unlocked_worlds (player_after (snd P) q)) []
                  = (if unlocked_world (response_for (snd P) q) = Some ''world_1''
                     then get_default (unlocked_worlds (snd P)) [] @ [''world_1'']
                     else get_default (unlocked_worlds (snd P)) [])"
    by (simp add: worlds_player_after response_for_def)
  from call found1 iff alt worlds
  have one: "\<exists>r s' d'. complete_milestone (Some s) q = (Inr r, Some s')
            \<and> find_one (by_email e) (coll_player s') = Some (fst P, d')
            \<and> (unlocked_world r = Some ''world_1''
                 \<longleftrightarrow> float_ge_int (resp_revenue_usd r) 1000
                     \<and> ''world_1'' \<notin> set (get_default (unlocked_worlds (snd P)) []))
            \<and> (unlocked_world r = Some ''world_1'' \<or> unlocked_world r = None)
            \<and> get_default (unlocked_worlds d') []
                = (if unlocked_world r = Some ''world_1''
                   then get_default (unlocked_worlds (snd P)) [] @ [''world_1'']
                   else get_default (unlocked_worlds (snd P)) [])"
    by (intro exI [of _ "response_for (snd P) q"] exI [of _ s1]
        exI [of _ "player_after (snd P) q"] conjI)
  from complete_all_player [OF assms(1,2), of qs "[]"]
  obtain s' where run: "snd (complete_all (Some s) qs) = Some s'"
    and found: "find_one (by_email e) (coll_player s')
                  = Some (fst P, foldl player_after (snd P) (calls_of e qs))"
    and res: "results_of e qs (fst (complete_all (Some s) qs)) = traced (snd P) (calls_of e qs)"
    unfolding traced_def by blast
  have two: "length (filter (\<lambda>x. reports_unlock (snd x))
                   (results_of e qs (fst (complete_all (Some s) qs)))) \<le> 1"
    unfolding res by (rule unlock_once)
  from run found count_foldl
  have three: "\<exists>s' d'. snd (complete_all (Some s) qs) = Some s'
             \<and> find_one (by_email e) (coll_player s') = Some (fst P, d')
             \<and> (\<forall>w. count_list (get_default (unlocked_worlds d') []) w
                       \<le> max 1 (count_list (get_default (unlocked_worlds (snd P)) []) w))"
    by blast
  from one two three show ?thesis by (intro conjI)
qed

theorem C4_world_unlock_witness:
  "(\<exists>r s' d'. complete_milestone (Some demo_db) demo_slow = (Inr r, Some s')
            \<and> find_one (by_email ''a@x.com'') (coll_player s') = Some (fst (1 :: nat, demo_player), d')
            \<and> (unlocked_world r = Some ''world_1''
                 \<longleftrightarrow> float_ge_int (resp_revenue_usd r) 1000
                     \<and> ''world_1'' \<notin> set (get_default (unlocked_worlds (snd (1 :: nat, demo_player))) []))
            \<and> (unlocked_world r = Some ''world_1'' \<or> unlocked_world r = None)
            \<and> get_default (unlocked_worlds d') []
                = (if unlocked_world r = Some ''world_1''
                   then get_default (unlocked_worlds (snd (1 :: nat, demo_player))) [] @ [''world_1'']
                   else get_default (unlocked_worlds (snd (1 :: nat, demo_player))) []))
       \<and> length (filter (\<lambda>x. reports_unlock (snd x))
                   (results_of ''a@x.com'' [demo_slow, demo_slow]
                      (fst (complete_all (Some demo_db) [demo_slow, demo_slow])))) \<le> 1
       \<and> (\<exists>s' d'. snd (complete_all (Some demo_db) [demo_slow, demo_slow]) = Some s'
             \<and> find_one (by_email ''a@x.com'') (coll_player s') = Some (fst (1 :: nat, demo_player), d')
             \<and> (\<forall>w. count_list (get_default (unlocked_worlds d') []) w
                       \<le> max 1 (count_list (get_default (unlocked_worlds (snd (1 :: nat, demo_player))) []) w)))"
proof -
  have ids: "unique_ids demo_db"
    by (simp add: unique_ids_def demo_db_def)
  have found: "find_one (by_email ''a@x.com'') (coll_player demo_db) = Some (1, demo_player)"
    by (simp add: demo_db_def demo_player_def by_email_def)
  have mail: "player_email demo_slow = ''a@x.com''"
    by (simp add: demo_slow_def)
  show ?thesis
    by (rule C4_world_unlock [OF ids found mail])
qed

section \<open>The catalog bootstrap\<close>

lemma snd_create_document: "snd (create_document c d) = c @ [(new_oid c, d)]"
  by (simp add: create_document_def Let_def)

lemma bootstrap_loop_shape:
  "\<exists>new. bootstrap_loop ex items (c, n) = (c @ new, n + int (length new))
         \<and> map snd new = filter (\<lambda>item. milestone_id item \<notin> set ex) items"
proof (induction items arbitrary: c n)
  case Nil
  show ?case by simp
next
  case (Cons item items)
  show ?case
  proof (cases "milestone_id item \<in> set ex")
    case True
    with Cons.IH [of c n] show ?thesis by simp
  next
    case False
    let ?d = "(new_oid c, item)"
    from Cons.IH [of "c @ [?d]" "n + 1"]
    obtain new where loop: "bootstrap_loop ex items (c @ [?d], n + 1)
                              = ((c @ [?d]) @ new, n + 1 + int (length new))"
      and new: "map snd new = filter (\<lambda>item. milestone_id item \<notin> set ex) items"
      by blast
    have "bootstrap_loop ex (item # items) (c, n) = (c @ (?d # new), n + int (length (?d # new)))"
      using False loop by (simp add: snd_create_document)
    moreover have "map snd (?d # new) = filter (\<lambda>item. milestone_id item \<notin> set ex) (item # items)"
      using False new by simp
    ultimately show ?thesis by blast
  qed
qed

lemma bootstrap_shape:
  "\<exists>new. bootstrap (Some s)
           = (Inr (int (length new)), Some (s\<lparr>coll_milestone := coll_milestone s @ new\<rparr>))
         \<and> map snd new = filter (\<lambda>item. milestone_id item \<notin> set (stored_ids s)) catalog"
proof -
  from bootstrap_loop_shape [of "py_set (stored_ids s)" catalog "coll_milestone s" 0]
  obtain new where loop: "bootstrap_loop (py_set (stored_ids s)) catalog (coll_milestone s, 0)
                            = (coll_milestone s @ new, int (length new))"
    and new: "map snd new = filter (\<lambda>item. milestone_id item \<notin> set (stored_ids s)) catalog"
    by (auto simp: set_py_set)
  have "bootstrap (Some s)
          = (Inr (int (length new)), Some (s\<lparr>coll_milestone := coll_milestone s @ new\<rparr>))"
    using loop by (simp add: bootstrap_def stored_ids_def)
  with new show ?thesis by blast
qed

lemma catalog_ids:
  "map milestone_id catalog
     = map Some [''m1'', ''m2'', ''m3'', ''m4'', ''m5'', ''m6'', ''m7'', ''m8'', ''m9'', ''m10'', ''m11'']"
  by (simp add: catalog_def catalog_item_def)

lemma catalog_orders:
  "map order catalog = map Some [1, 2, 3, 4, 5, 6, 7, 8, 9, 10, 11]"
  by (simp add: catalog_def catalog_item_def)

lemma catalog_distinct: "distinct (map milestone_id catalog)"
  unfolding catalog_ids by simp

lemma distinct_map_filter_keep: "distinct (map f xs) \<Longrightarrow> distinct (map f (filter P xs))"
  by (induction xs) auto

lemma stored_after:
  assumes "map snd new = filter (\<lambda>item. milestone_id item \<notin> set (stored_ids s)) catalog"
  shows "stored_ids (s\<lparr>coll_milestone := coll_milestone s @ new\<rparr>)
           = stored_ids s @ map milestone_id (filter (\<lambda>item. milestone_id item \<notin> set (stored_ids s)) catalog)"
proof -
  have "map (\<lambda>m. milestone_id (snd m)) new = map milestone_id (map snd new)"
    by simp
  then show ?thesis
    unfolding assms by (simp add: stored_ids_def)
qed

lemma bootstrap_again:
  assumes "map snd new = filter (\<lambda>item. milestone_id item \<notin> set (stored_ids s)) catalog"
  shows "bootstrap (Some (s\<lparr>coll_milestone := coll_milestone s @ new\<rparr>))
           = (Inr 0, Some (s\<lparr>coll_milestone := coll_milestone s @ new\<rparr>))"
proof -
  let ?s1 = "s\<lparr>coll_milestone := coll_milestone s @ new\<rparr>"
  from bootstrap_shape [of ?s1]
  obtain new1 where call: "bootstrap (Some ?s1)
                      = (Inr (int (length new1)), Some (?s1\<lparr>coll_milestone := coll_milestone ?s1 @ new1\<rparr>))"
    and new1: "map snd new1 = filter (\<lambda>item. milestone_id item \<notin> set (stored_ids ?s1)) catalog"
    by blast
  have "\<forall>item \<in> set catalog. milestone_id item \<in> set (stored_ids ?s1)"
    unfolding stored_after [OF assms] by auto
  then have "filter (\<lambda>item. milestone_id item \<notin> set (stored_ids ?s1)) catalog = []"
    by (simp add: filter_empty_conv)
  with new1 have "new1 = []" by simp
  with call show ?thesis by simp
qed

lemma bootstrap_twice: "snd (bootstrap (snd (bootstrap (Some s)))) = snd (bootstrap (Some s))"
proof -
  from bootstrap_shape [of s]
  obtain new where call: "bootstrap (Some s)
                      = (Inr (int (length new)), Some (s\<lparr>coll_milestone := coll_milestone s @ new\<rparr>))"
    and new: "map snd new = filter (\<lambda>item. milestone_id item \<notin> set (stored_ids s)) catalog"
    by blast
  show ?thesis
    by (simp add: call bootstrap_again [OF new])
qed

lemma bootstrap_many:
  "((\<lambda>db. snd (bootstrap db)) ^^ Suc n) (Some s) = snd (bootstrap (Some s))"
proof (induction n)
  case 0
  show ?case by simp
next
  case (Suc n)
  have "((\<lambda>db. snd (bootstrap db)) ^^ Suc (Suc n)) (Some s)
          = snd (bootstrap (((\<lambda>db. snd (bootstrap db)) ^^ Suc n) (Some s)))"
    by simp
  also have "\<dots> = snd (bootstrap (snd (bootstrap (Some s))))"
    by (simp only: Suc.IH)
  also have "\<dots> = snd (bootstrap (Some s))"
    by (rule bootstrap_twice)
  finally show ?case .
qed

lemma stored_distinct:
  assumes new: "map snd new = filter (\<lambda>item. milestone_id item \<notin> set (stored_ids s)) catalog"
    and d: "distinct (stored_ids s)"
  shows "distinct (stored_ids (s\<lparr>coll_milestone := coll_milestone s @ new\<rparr>))"
proof -
  have "distinct (map milestone_id (filter (\<lambda>item. milestone_id item \<notin> set (stored_ids s)) catalog))"
    using catalog_distinct by (rule distinct_map_filter_keep)
  then show ?thesis
    unfolding stored_after [OF new] using d by auto
qed

text \<open>
  Claim C6. \<open>bootstrap\<close> appends to the milestone collection exactly the catalog entries
  whose ids are not stored, in catalog order, and returns their number; the stored
  documents stay as they were, in place, and the other collections are not touched. A
  second call creates nothing and changes nothing, so any number of calls leaves the
  store that one call leaves. Every catalog id is stored afterwards, and if the stored ids
  were free of duplicates they still are. The catalog has the 11 ids m1 to m11 with the
  orders 1 to 11.
\<close>

theorem C6_bootstrap_idempotent:
  "\<exists>new. bootstrap (Some s)
           = (Inr (int (length new)), Some (s\<lparr>coll_milestone := coll_milestone s @ new\<rparr>))
       \<and> map snd new = filter (\<lambda>item. milestone_id item \<notin> set (stored_ids s)) catalog
       \<and> bootstrap (Some (s\<lparr>coll_milestone := coll_milestone s @ new\<rparr>))
           = (Inr 0, Some (s\<lparr>coll_milestone := coll_milestone s @ new\<rparr>))
       \<and> ((\<lambda>db. snd (bootstrap db)) ^^ Suc n) (Some s) = snd (bootstrap (Some s))
       \<and> (\<forall>item \<in> set catalog.
             milestone_id item \<in> set (stored_ids (s\<lparr>coll_milestone := coll_milestone s @ new\<rparr>)))
       \<and> (distinct (stored_ids s)
            \<longrightarrow> distinct (stored_ids (s\<lparr>coll_milestone := coll_milestone s @ new\<rparr>)))
       \<and> map milestone_id catalog
           = map Some [''m1'', ''m2'', ''m3'', ''m4'', ''m5'', ''m6'', ''m7'', ''m8'', ''m9'',
                       ''m10'', ''m11'']
       \<and> map order catalog = map Some [1, 2, 3, 4, 5, 6, 7, 8, 9, 10, 11]"
proof -
  from bootstrap_shape [of s]
  obtain new where call: "bootstrap (Some s)
                      = (Inr (int (length new)), Some (s\<lparr>coll_milestone := coll_milestone s @ new\<rparr>))"
    and new: "map snd new = filter (\<lambda>item. milestone_id item \<notin> set (stored_ids s)) catalog"
    by blast
  have all: "\<forall>item \<in> set catalog.
               milestone_id item \<in> set (stored_ids (s\<lparr>coll_milestone := coll_milestone s @ new\<rparr>))"
    unfolding stored_after [OF new] by auto
  have keep: "distinct (stored_ids s)
                \<longrightarrow> distinct (stored_ids (s\<lparr>coll_milestone := coll_milestone s @ new\<rparr>))"
    using stored_distinct [OF new] by blast
  from call new bootstrap_again [OF new] bootstrap_many [of n s] all keep catalog_ids catalog_orders
  show ?thesis
    by (intro exI [of _ new] conjI)
qed

theorem C6_bootstrap_idempotent_witness:
  "\<exists>new. bootstrap (Some empty_db) = (Inr 11, Some (empty_db\<lparr>coll_milestone := new\<rparr>))
       \<and> map snd new = catalog
       \<and> distinct (stored_ids (empty_db\<lparr>coll_milestone := new\<rparr>))
       \<and> bootstrap (Some (empty_db\<lparr>coll_milestone := new\<rparr>))
           = (Inr 0, Some (empty_db\<lparr>coll_milestone := new\<rparr>))"
proof -
  have none: "stored_ids empty_db = []" and coll: "coll_milestone empty_db = []"
    by (simp_all add: stored_ids_def empty_db_def)
  from C6_bootstrap_idempotent [of empty_db 0]
  obtain new where call: "bootstrap (Some empty_db)
                      = (Inr (int (length new)), Some (empty_db\<lparr>coll_milestone := new\<rparr>))"
    and new: "map snd new = catalog"
    and again: "bootstrap (Some (empty_db\<lparr>coll_milestone := new\<rparr>))
                  = (Inr 0, Some (empty_db\<lparr>coll_milestone := new\<rparr>))"
    and keep: "distinct (stored_ids empty_db)
                 \<longrightarrow> distinct (stored_ids (empty_db\<lparr>coll_milestone := new\<rparr>))"
    unfolding none coll by auto
  have "length new = length (map snd new)" by simp
  also have "\<dots> = 11" unfolding new by (simp add: catalog_def)
  finally have len: "int (length new) = 11" by simp
  from keep have d: "distinct (stored_ids (empty_db\<lparr>coll_milestone := new\<rparr>))"
    by (simp add: none)
  from call new again d show ?thesis
    unfolding len by blast
qed

section \<open>Registration\<close>

lemma create_player_found:
  "find_one (by_email (cp_email p)) (coll_player s) = Some found \<Longrightarrow>
   create_player v (Some s) p = (Inr (fst found), Some s)"
  by (simp add: create_player_def)

lemma create_player_new:
  "find_one (by_email (cp_email p)) (coll_player s) = None \<Longrightarrow> v (cp_email p) = Some e' \<Longrightarrow>
   create_player v (Some s) p
     = (Inr (new_oid (coll_player s)),
        Some (s\<lparr>coll_player := coll_player s @
                  [(new_oid (coll_player s),
                    \<lparr>name = Some (cp_name p), email = Some e', av_coins = Some 0,
                     revenue_usd = Some (float_of_int 0), completed_milestones = Some [],
                     unlocked_worlds = Some []\<rparr>)]\<rparr>))"
  by (simp add: create_player_def Player_def create_document_def Let_def)

lemma create_player_invalid:
  "find_one (by_email (cp_email p)) (coll_player s) = None \<Longrightarrow> v (cp_email p) = None \<Longrightarrow>
   create_player v (Some s) p = (Inl ValidationError, Some s)"
  by (simp add: create_player_def Player_def)

lemma create_player_twice:
  assumes "v (cp_email p) = Some (cp_email p)"
  shows "\<exists>i s1. create_player v (Some s) p = (Inr i, Some s1)
           \<and> create_player v (Some s1) p = (Inr i, Some s1)
           \<and> length (coll_player s1) \<le> Suc (length (coll_player s))"
proof (cases "find_one (by_email (cp_email p)) (coll_player s)")
  case (Some found)
  then have "create_player v (Some s) p = (Inr (fst found), Some s)"
    by (rule create_player_found)
  then show ?thesis by simp
next
  case None
  let ?i = "new_oid (coll_player s)"
  let ?d = "\<lparr>name = Some (cp_name p), email = Some (cp_email p), av_coins = Some 0,
             revenue_usd = Some (float_of_int 0), completed_milestones = Some [], unlocked_worlds = Some []\<rparr>"
  let ?s1 = "s\<lparr>coll_player := coll_player s @ [(?i, ?d)]\<rparr>"
  have first: "create_player v (Some s) p = (Inr ?i, Some ?s1)"
    by (rule create_player_new [where v = v and p = p, OF None assms])
  have "find_one (by_email (cp_email p)) (coll_player ?s1) = Some (?i, ?d)"
    using None by (simp add: find_one_append by_email_def)
  then have second: "create_player v (Some ?s1) p = (Inr (fst (?i, ?d)), Some ?s1)"
    by (rule create_player_found)
  have "length (coll_player ?s1) \<le> Suc (length (coll_player s))"
    by simp
  with first second show ?thesis
    by (intro exI [of _ ?i] exI [of _ ?s1]) simp
qed

lemma unique_ids_create_player:
  assumes "unique_ids s" and "snd (create_player v (Some s) p) = Some s1"
  shows "unique_ids s1"
proof (cases "find_one (by_email (cp_email p)) (coll_player s)")
  case (Some found)
  with assms show ?thesis by (simp add: create_player_found)
next
  case None
  show ?thesis
  proof (cases "v (cp_email p)")
    case no: None
    with None assms show ?thesis by (simp add: create_player_invalid)
  next
    case (Some e')
    from create_player_new [where v = v and p = p, OF None Some] assms(2)
    have "map fst (coll_player s1) = map fst (coll_player s) @ [new_oid (coll_player s)]"
      by auto
    with assms(1) new_oid_fresh [of "coll_player s"] show ?thesis
      by (simp add: unique_ids_def)
  qed
qed

lemma create_player_normalised:
  assumes none: "find_one (by_email (cp_email p)) (coll_player s) = None"
    and ok: "v (cp_email p) = Some e'" and ne: "e' \<noteq> cp_email p"
  shows "\<exists>i j s1 s2. create_player v (Some s) p = (Inr i, Some s1)
           \<and> create_player v (Some s1) p = (Inr j, Some s2)
           \<and> i \<noteq> j
           \<and> length (coll_player s2) = Suc (Suc (length (coll_player s)))"
proof -
  let ?d = "\<lparr>name = Some (cp_name p), email = Some e', av_coins = Some 0,
             revenue_usd = Some (float_of_int 0), completed_milestones = Some [],
             unlocked_worlds = Some []\<rparr>"
  let ?i = "new_oid (coll_player s)"
  let ?s1 = "s\<lparr>coll_player := coll_player s @ [(?i, ?d)]\<rparr>"
  let ?j = "new_oid (coll_player ?s1)"
  let ?s2 = "?s1\<lparr>coll_player := coll_player ?s1 @ [(?j, ?d)]\<rparr>"
  have first: "create_player v (Some s) p = (Inr ?i, Some ?s1)"
    by (rule create_player_new [where v = v and p = p, OF none ok])
  have none1: "find_one (by_email (cp_email p)) (coll_player ?s1) = None"
    using none ne by (simp add: find_one_append by_email_def)
  have second: "create_player v (Some ?s1) p = (Inr ?j, Some ?s2)"
    by (rule create_player_new [where v = v and p = p, OF none1 ok])
  have "?j \<notin> fst ` set (coll_player ?s1)"
    by (rule new_oid_fresh)
  then have "?i \<noteq> ?j" by auto
  moreover have "length (coll_player ?s2) = Suc (Suc (length (coll_player s)))"
    by simp
  ultimately show ?thesis
    using first second by blast
qed

text \<open>
  Claim C7, at an input where the code departs from it. \<open>create_player\<close> looks the player
  up by the email as given, but stores the email as the Player schema validates it, with
  the domain in lower case. Registering A@X.COM twice, starting from the empty store,
  therefore finds no player either time: the two calls return the ids 1 and 2, and the
  store ends with two player records for the one email.
\<close>

theorem C7_duplicate_player:
  "create_player lower_domain_validator (Some empty_db) demo_upper
     = (Inr 1, Some (empty_db\<lparr>coll_player := [(1, demo_upper_doc)]\<rparr>))
   \<and> create_player lower_domain_validator (Some (empty_db\<lparr>coll_player := [(1, demo_upper_doc)]\<rparr>))
        demo_upper
     = (Inr 2, Some (empty_db\<lparr>coll_player := [(1, demo_upper_doc), (2, demo_upper_doc)]\<rparr>))
   \<and> email demo_upper_doc = Some ''A@x.com''"
proof -
  have v: "lower_domain_validator ''A@X.COM'' = Some ''A@x.com''"
    by (simp add: lower_domain_validator_def lower_def lower_char_def)
  show ?thesis
    by (simp add: create_player_def Player_def create_document_def new_oid_def v demo_upper_def
        demo_upper_doc_def empty_db_def by_email_def float_of_int_0 Let_def)
qed

section \<open>The milestone list\<close>

lemma list_milestones_eq:
  "list_milestones (Some s) = Inr (map snd (sort_key order_key (coll_milestone s)))"
  by (simp add: list_milestones_def get_documents_def)

lemma order_key_snd: "get_default (order (snd d)) 999 = order_key d"
  by (simp add: order_key_def)

lemma sorted_by_order:
  "sorted (map (\<lambda>d. get_default (order d) 999) (map snd (sort_key order_key c)))"
proof -
  have "map (\<lambda>d. get_default (order d) 999) (map snd (sort_key order_key c))
          = map order_key (sort_key order_key c)"
    by (simp add: order_key_def)
  then show ?thesis by (simp only: sorted_sort_key)
qed

lemma missing_order_position:
  assumes "sorted (map order_key docs)" and "i < j" and "j < length docs"
    and "order (snd (docs ! i)) = None" and "order (snd (docs ! j)) = Some n"
  shows "999 \<le> n"
proof -
  have "map order_key docs ! i \<le> map order_key docs ! j"
    using assms(1-3) by (intro sorted_nth_mono) simp_all
  then have "order_key (docs ! i) \<le> order_key (docs ! j)"
    using assms(2,3) by simp
  then show ?thesis
    using assms(4,5) by (simp add: order_key_def get_default_def)
qed

text \<open>
  Claim C9, as stated, fails when a stored order exceeds the sentinel: the record without
  an order is listed first, before the record whose order is 1000, and not last.
\<close>

theorem C9_sentinel_not_last:
  "list_milestones (Some late_db) = Inr [demo_unordered, demo_late]
   \<and> order demo_unordered = None \<and> order demo_late = Some 1000"
  by (simp add: list_milestones_def get_documents_def late_db_def order_key_def
      get_default_def demo_unordered_def demo_late_def)

text \<open>
  Claim C9, amended. \<open>list_milestones\<close> returns the stored milestone records, each
  without its \<open>_id\<close>, in ascending order of the key that is the record's order, or 999
  for a record without one. The result is a permutation of the stored records, and the
  sort is stable: records with the same key keep their stored order. A record without an
  order therefore comes after every record whose order is below 999, and before none of
  them; it does not come after a record whose order exceeds 999.
\<close>

theorem C9_sorted_by_order:
  "\<exists>docs. list_milestones (Some s) = Inr (map snd docs)
     \<and> mset docs = mset (coll_milestone s)
     \<and> sorted (map (\<lambda>d. get_default (order d) 999) (map snd docs))
     \<and> (\<forall>k. filter (\<lambda>d. order_key d = k) docs = filter (\<lambda>d. order_key d = k) (coll_milestone s))
     \<and> (\<forall>i j n. i < j \<and> j < length docs \<and> order (snd (docs ! i)) = None
                  \<and> order (snd (docs ! j)) = Some n \<longrightarrow> 999 \<le> n)"
proof -
  let ?docs = "sort_key order_key (coll_milestone s)"
  have perm: "mset ?docs = mset (coll_milestone s)"
    by simp
  have stable: "\<forall>k. filter (\<lambda>d. order_key d = k) ?docs
                       = filter (\<lambda>d. order_key d = k) (coll_milestone s)"
    by (simp add: sort_key_stable)
  have srt: "sorted (map order_key ?docs)"
    by simp
  have pos: "\<forall>i j n. i < j \<and> j < length ?docs \<and> order (snd (?docs ! i)) = None
                  \<and> order (snd (?docs ! j)) = Some n \<longrightarrow> 999 \<le> n"
    using missing_order_position [OF srt] by blast
  from list_milestones_eq [of s] perm sorted_by_order [of "coll_milestone s"] stable pos
  show ?thesis by (intro exI [of _ ?docs] conjI)
qed

theorem C9_sorted_by_order_witness:
  "\<exists>docs. list_milestones (Some late_db) = Inr (map snd docs)
     \<and> mset docs = mset (coll_milestone late_db)
     \<and> map snd docs = [demo_unordered, demo_late]
     \<and> (999 :: int) \<le> 1000"
proof -
  from C9_sorted_by_order [of late_db]
  obtain docs where res: "list_milestones (Some late_db) = Inr (map snd docs)"
    and perm: "mset docs = mset (coll_milestone late_db)"
    and pos: "\<forall>i j n. i < j \<and> j < length docs \<and> order (snd (docs ! i)) = None
                  \<and> order (snd (docs ! j)) = Some n \<longrightarrow> 999 \<le> n"
    by blast
  have "list_milestones (Some late_db) = Inr [demo_unordered, demo_late]"
    by (simp add: list_milestones_def get_documents_def late_db_def order_key_def
        get_default_def demo_unordered_def demo_late_def)
  with res have docs: "map snd docs = [demo_unordered, demo_late]"
    by simp
  have "length (map snd docs) = length [demo_unordered, demo_late]"
    by (simp only: docs)
  then have len: "length docs = Suc (Suc 0)"
    by simp
  have "map snd docs ! 0 = snd (docs ! 0)"
    by (rule nth_map) (simp add: len)
  then have d0: "snd (docs ! 0) = demo_unordered"
    by (simp only: docs nth_Cons_0)
  have "map snd docs ! Suc 0 = snd (docs ! Suc 0)"
    by (rule nth_map) (simp add: len)
  then have d1: "snd (docs ! Suc 0) = demo_late"
    by (simp only: docs nth_Cons_Suc nth_Cons_0)
  have hyp: "(0 :: nat) < Suc 0 \<and> Suc 0 < length docs \<and> order (snd (docs ! 0)) = None
          \<and> order (snd (docs ! Suc 0)) = Some 1000"
    unfolding len d0 d1 by (simp add: demo_unordered_def demo_late_def)
  have bound: "(999 :: int) \<le> 1000"
    by (rule pos [rule_format, OF hyp])
  from res perm docs bound show ?thesis
    by (intro exI [of _ docs] conjI)
qed

section \<open>The store's invariant\<close>

lemma unique_ids_empty: "unique_ids empty_db"
  by (simp add: unique_ids_def empty_db_def)

lemma unique_ids_complete_milestone:
  assumes "unique_ids s" and "snd (complete_milestone (Some s) q) = Some s1"
  shows "unique_ids s1"
proof (cases "find_one (by_email (player_email q)) (coll_player s)")
  case None
  with assms show ?thesis by (simp add: complete_milestone_not_found)
next
  case (Some P)
  from assms(1) have ids: "distinct (map fst (coll_player s))"
    by (simp add: unique_ids_def)
  from complete_milestone_step [OF ids Some] assms(2)
  have "coll_player s1 = map (on_id (fst P) (\<lambda>_. player_after (snd P) q)) (coll_player s)"
    by auto
  then have "map fst (coll_player s1) = map fst (coll_player s)"
    by (simp only: map_fst_on_id)
  with ids show ?thesis by (simp add: unique_ids_def)
qed

lemma unique_ids_bootstrap:
  assumes "unique_ids s" and "snd (bootstrap (Some s)) = Some s1"
  shows "unique_ids s1"
proof -
  from bootstrap_shape [of s]
  obtain new where "bootstrap (Some s)
                      = (Inr (int (length new)), Some (s\<lparr>coll_milestone := coll_milestone s @ new\<rparr>))"
    by blast
  with assms(2) have "coll_player s1 = coll_player s" by auto
  with assms(1) show ?thesis by (simp add: unique_ids_def)
qed

end
